theory Spec2Isabelle
  imports Main "HOL-Library.Word" "HOL-Library.Sublist"
begin

chapter \<open>flutterproxy: a CONNECT proxy that intercepts TLS for local web development\<close>

section \<open>Go strings\<close>

text \<open>
  A Go string is a sequence of bytes; \<^typ>\<open>string\<close> is a list of 8-bit characters.
  The functions of package \<open>strings\<close> that the program calls are written out here the
  way the Go library computes them.
\<close>

definition HasPrefix :: "string \<Rightarrow> string \<Rightarrow> bool" where
  \<comment> \<open>\<open>len(s) >= len(prefix) && s[:len(prefix)] == prefix\<close>\<close>
  "HasPrefix s pre \<longleftrightarrow> length pre \<le> length s \<and> take (length pre) s = pre"

definition TrimPrefix :: "string \<Rightarrow> string \<Rightarrow> string" where
  "TrimPrefix s pre = (if HasPrefix s pre then drop (length pre) s else s)"

text \<open>
  \<open>strings.ReplaceAll\<close> replaces the non-overlapping occurrences of \<open>old\<close> from left to
  right. The program calls it with a fixed non-empty pattern; Go's treatment of the empty
  pattern (an insertion at every rune boundary) is not part of this model.
\<close>

function ReplaceAll :: "string \<Rightarrow> string \<Rightarrow> string \<Rightarrow> string" where
  "ReplaceAll [] old new = []"
| "ReplaceAll (c # cs) old new =
     (if old \<noteq> [] \<and> HasPrefix (c # cs) old
      then new @ ReplaceAll (drop (length old) (c # cs)) old new
      else c # ReplaceAll cs old new)"
  by pat_completeness auto
termination
  by (relation "measure (\<lambda>(s, old, new). length s)") auto

text \<open>
  \<open>strings.Split\<close> cuts \<open>s\<close> at every occurrence of a non-empty separator; the result
  has one more element than there are separators, so it is never empty.
\<close>

function splitFrom :: "string \<Rightarrow> string \<Rightarrow> string \<Rightarrow> string list" where
  "splitFrom field [] sep = [field]"
| "splitFrom field (c # cs) sep =
     (if sep \<noteq> [] \<and> HasPrefix (c # cs) sep
      then field # splitFrom [] (drop (length sep) (c # cs)) sep
      else splitFrom (field @ [c]) cs sep)"
  by pat_completeness auto
termination
  by (relation "measure (\<lambda>(field, s, sep). length s)") auto

definition Split :: "string \<Rightarrow> string \<Rightarrow> string list" where
  "Split s sep = splitFrom [] s sep"

section \<open>Values of the Go standard library\<close>

type_synonym byte = "8 word"
type_synonym bytes = "byte list"
type_synonym time = int

datatype error = Error string

text \<open>
  A call can return or panic; a panic of the Go runtime is a result of its own, so that
  a nil dereference is a branch of the model and not an unspecified value.
\<close>

datatype 'a outcome = Returned 'a | Panic string

record pkix_Name =
  CommonName :: string
  Organization :: "string list"
  Country :: "string list"
  Province :: "string list"
  Locality :: "string list"
  StreetAddress :: "string list"
  PostalCode :: "string list"

datatype net_IP = IPv4 byte byte byte byte | IPv6loopback

datatype ExtKeyUsage = ExtKeyUsageClientAuth | ExtKeyUsageServerAuth

datatype KeyUsage = KeyUsageDigitalSignature | KeyUsageCertSign

record x509_Certificate =
  SerialNumber :: int
  Subject :: pkix_Name
  IPAddresses :: "net_IP list"
  NotBefore :: time
  NotAfter :: time
  SubjectKeyId :: bytes
  DNSNames :: "string list"
  ExtKeyUsages :: "ExtKeyUsage list"
  KeyUsages :: "KeyUsage set"
  IsCA :: bool
  BasicConstraintsValid :: bool

record rsa_PublicKey =
  N :: int
  E :: int

record rsa_PrivateKey =
  PublicKey :: rsa_PublicKey
  D :: int

record pem_Block =
  Type :: string
  Bytes :: bytes

record tls_Certificate =
  Certificate :: bytes
  PrivateKey :: bytes

record tls_Config =
  MinVersion :: "16 word"
  CurvePreferences :: "16 word list"
  PreferServerCipherSuites :: bool
  CipherSuites :: "16 word list"
  Certificates :: "tls_Certificate list"

record url =
  Scheme :: string
  URLHost :: string
  Path :: string
  RawQuery :: string

record request =
  Method :: string
  Host :: string
  URL :: url

text \<open>
  What the process has done to the outside so far: the clock readings taken, the leaf
  certificates asked of the authority, the ports bound, the TLS servers set to serve and
  the addresses dialled. The library calls that draw on randomness, the clock or the
  network read this history, so that two calls need not answer alike.
\<close>

record world =
  clock :: nat
  issued :: "string list list"
  listeners :: "nat list"
  serving :: "(string \<times> string \<times> string) list"
  dials :: "string list"

text \<open>
  The functions of the standard library that the program calls and that are not written
  out in this theory. Every statement below holds for any such library.
\<close>

record lib =
  pem_Decode :: "bytes \<Rightarrow> pem_Block option"
  pem_Encode :: "pem_Block \<Rightarrow> bytes \<times> error option"
  x509_ParsePKCS1PrivateKey :: "bytes \<Rightarrow> error + rsa_PrivateKey option"
  x509_ParseCertificate :: "bytes \<Rightarrow> error + x509_Certificate"
  x509_MarshalPKCS1PrivateKey :: "rsa_PrivateKey \<Rightarrow> bytes"
  x509_CreateCertificate ::
    "x509_Certificate \<Rightarrow> x509_Certificate \<Rightarrow> rsa_PublicKey \<Rightarrow> rsa_PrivateKey \<Rightarrow> error + bytes"
  rsa_GenerateKey :: "world \<Rightarrow> nat \<Rightarrow> error + rsa_PrivateKey"
  time_Now :: "nat \<Rightarrow> time"
  time_AddDate :: "time \<Rightarrow> int \<Rightarrow> int \<Rightarrow> int \<Rightarrow> time"
  tls_X509KeyPair :: "bytes \<Rightarrow> bytes \<Rightarrow> error + tls_Certificate"
  url_Parse :: "string \<Rightarrow> error + url"
  url_Hostname :: "url \<Rightarrow> string"
  url_String :: "url \<Rightarrow> string"
  default_director :: "url \<Rightarrow> request \<Rightarrow> request"
  net_Listen :: "world \<Rightarrow> error + nat"
  net_Dial :: "world \<Rightarrow> string \<Rightarrow> error + unit"

text \<open>\<open>fmt.Sprintf("%d", n)\<close> for a port number.\<close>

definition digit :: "nat \<Rightarrow> char" where
  "digit k = ''0123456789'' ! k"

function decimal :: "nat \<Rightarrow> string" where
  "decimal n = (if n < 10 then [digit n] else decimal (n div 10) @ [digit (n mod 10)])"
  by pat_completeness auto
termination
  by (relation "measure id") auto

declare decimal.simps [simp del]

text \<open>
  \<open>fmt.Sprintf("%-8s", s)\<close>: left-justified in a field of eight. Go counts the width in
  runes; they are the bytes of an ASCII string, such as the method of a request that the
  HTTP server has read. For a string with multi-byte characters the padding written here
  is shorter than Go's; it appears only in the text of the 405 message.
\<close>

definition pad8 :: "string \<Rightarrow> string" where
  "pad8 s = s @ replicate (8 - length s) CHR '' ''"

section \<open>Package fakeca\<close>

record FakeCA =
  PrivKey :: rsa_PrivateKey
  Cert :: x509_Certificate
  PrivKeyPEM :: bytes
  CertPEM :: bytes

definition newName :: pkix_Name where
  "newName = \<lparr>CommonName = ''Fake CA'', Organization = [''Fake CA''], Country = [''US''],
     Province = [''California''], Locality = [''San Jose''],
     StreetAddress = [''First Street''], PostalCode = [''95113'']\<rparr>"

text \<open>
  \<open>FromKeyPair\<close>. \<open>pem.Decode\<close> returns a nil block when it finds none, and
  \<open>x509.ParsePKCS1PrivateKey\<close> returns a pointer; the source tests the key block for nil,
  and after decoding the certificate it tests the key pointer, not the certificate block,
  before it reads the block's \<open>Type\<close>.
\<close>

definition FromKeyPair :: "lib \<Rightarrow> bytes \<Rightarrow> bytes \<Rightarrow> (error + FakeCA) outcome" where
  "FromKeyPair L keyPEM certPEM =
     (case pem_Decode L keyPEM of
        None \<Rightarrow> Returned (Inl (Error ''invalid private key''))
      | Some keyDER \<Rightarrow>
          if Type keyDER \<noteq> ''RSA PRIVATE KEY'' then Returned (Inl (Error ''invalid private key''))
          else
            (case x509_ParsePKCS1PrivateKey L (Bytes keyDER) of
               Inl err \<Rightarrow> Returned (Inl err)
             | Inr privKey \<Rightarrow>
                 (case privKey of
                    None \<Rightarrow> Returned (Inl (Error ''invalid certificate''))
                  | Some key \<Rightarrow>
                      (case pem_Decode L certPEM of
                         None \<Rightarrow> Panic ''invalid memory address or nil pointer dereference''
                       | Some certDER \<Rightarrow>
                           if Type certDER \<noteq> ''CERTIFICATE''
                           then Returned (Inl (Error ''invalid certificate''))
                           else
                             (case x509_ParseCertificate L (Bytes certDER) of
                                Inl err \<Rightarrow> Returned (Inl err)
                              | Inr cert \<Rightarrow>
                                  Returned (Inr \<lparr>PrivKey = key, Cert = cert,
                                     PrivKeyPEM = keyPEM, CertPEM = certPEM\<rparr>))))))"

text \<open>The certificate that \<open>NewCert\<close> fills in before it is signed.\<close>

definition leafTemplate :: "lib \<Rightarrow> nat \<Rightarrow> string list \<Rightarrow> x509_Certificate" where
  "leafTemplate L tick dnsNames =
     \<lparr>SerialNumber = 1658,
      Subject = newName,
      IPAddresses = [IPv4 127 0 0 1, IPv6loopback],
      NotBefore = time_AddDate L (time_Now L tick) 0 0 (- 7),
      NotAfter = time_AddDate L (time_Now L (tick + 1)) 10 0 0,
      SubjectKeyId = [1, 2, 3, 4, 6],
      DNSNames = dnsNames,
      ExtKeyUsages = [ExtKeyUsageClientAuth, ExtKeyUsageServerAuth],
      KeyUsages = {KeyUsageDigitalSignature},
      IsCA = False,
      BasicConstraintsValid = False\<rparr>"

definition NewCert ::
  "lib \<Rightarrow> FakeCA \<Rightarrow> string list \<Rightarrow> world \<Rightarrow> (error + bytes \<times> bytes) \<times> world" where
  "NewCert L ca dnsNames w =
     (let cert = leafTemplate L (clock w) dnsNames;
          w' = w\<lparr>clock := clock w + 2, issued := issued w @ [dnsNames]\<rparr>
      in case rsa_GenerateKey L w 4096 of
           Inl err \<Rightarrow> (Inl err, w')
         | Inr certPrivKey \<Rightarrow>
             (case x509_CreateCertificate L cert (Cert ca) (PublicKey certPrivKey) (PrivKey ca) of
                Inl err \<Rightarrow> (Inl err, w')
              | Inr certBytes \<Rightarrow>
                  (let keyBuf = fst (pem_Encode L \<lparr>Type = ''RSA PRIVATE KEY'',
                                       Bytes = x509_MarshalPKCS1PrivateKey L certPrivKey\<rparr>)
                   in case pem_Encode L \<lparr>Type = ''CERTIFICATE'', Bytes = certBytes\<rparr> of
                        (certBuf, Some err) \<Rightarrow> (Inl err, w')
                      | (certBuf, None) \<Rightarrow> (Inr (certBuf, keyBuf), w'))))"

section \<open>Package httpsproxy\<close>

text \<open>
  The two handlers of a proxy are reverse proxies of \<open>httputil\<close>; such a handler rewrites
  the request with its \<open>Director\<close> and sends the result. A handler field is nil until
  \<open>StartServer\<close> has set it.
\<close>

datatype handler = ReverseProxy "request \<Rightarrow> request"

record httpsproxy =
  hp_cfg :: tls_Config
  hp_target :: "handler option"
  hp_targetHost :: string
  hp_next :: "handler option"
  hp_nextHost :: string
  hp_prefixes :: "string list"

definition httpsproxy_New ::
  "tls_Certificate \<Rightarrow> string \<Rightarrow> string \<Rightarrow> string list \<Rightarrow> error + httpsproxy" where
  "httpsproxy_New cert targetHost nextHost pathPrefixes =
     (let cfg = \<lparr>MinVersion = 0x0303,
                 CurvePreferences = [25, 24, 23],
                 PreferServerCipherSuites = True,
                 CipherSuites = [0xc030, 0xc014, 0x009d, 0x0035],
                 Certificates = [cert]\<rparr>
      in Inr \<lparr>hp_cfg = cfg, hp_target = None, hp_targetHost = targetHost,
              hp_next = None, hp_nextHost = nextHost, hp_prefixes = pathPrefixes\<rparr>)"

definition makeDirector :: "(request \<Rightarrow> request) \<Rightarrow> string \<Rightarrow> request \<Rightarrow> request" where
  "makeDirector director host r = (director r)\<lparr>Host := host\<rparr>"

definition NewSingleHostReverseProxy :: "lib \<Rightarrow> url \<Rightarrow> request \<Rightarrow> request" where
  \<comment> \<open>the \<open>Director\<close> of the reverse proxy that the library builds for a backend\<close>
  "NewSingleHostReverseProxy L u = default_director L u"

definition StartServer ::
  "lib \<Rightarrow> httpsproxy \<Rightarrow> world \<Rightarrow> (error + string) \<times> httpsproxy \<times> world" where
  "StartServer L hp w =
     (case net_Listen L w of
        Inl err \<Rightarrow> (Inl err, hp, w)
      | Inr port \<Rightarrow>
          (let w1 = w\<lparr>listeners := listeners w @ [port]\<rparr> in
           case url_Parse L (''http://'' @ hp_targetHost hp) of
             Inl err \<Rightarrow> (Inl err, hp, w1)
           | Inr targetURL \<Rightarrow>
               (case url_Parse L (''https://'' @ hp_nextHost hp) of
                  Inl err \<Rightarrow> (Inl err, hp, w1)
                | Inr nextURL \<Rightarrow>
                    (let proxy = makeDirector (NewSingleHostReverseProxy L targetURL) (URLHost nextURL);
                         nextProxy = makeDirector (NewSingleHostReverseProxy L nextURL) (URLHost nextURL);
                         hp1 = hp\<lparr>hp_target := Some (ReverseProxy proxy),
                                  hp_next := Some (ReverseProxy nextProxy)\<rparr>;
                         addr = ''localhost:'' @ decimal port
                     in (Inr addr, hp1,
                         w1\<lparr>serving := serving w1 @ [(addr, hp_targetHost hp, hp_nextHost hp)]\<rparr>)))))"

text \<open>
  Serving a request through a handler field: the outbound request that the reverse proxy
  sends, or the panic of a call through a nil interface.
\<close>

fun handler_ServeHTTP :: "handler option \<Rightarrow> request \<Rightarrow> request outcome" where
  "handler_ServeHTTP None req = Panic ''invalid memory address or nil pointer dereference''"
| "handler_ServeHTTP (Some (ReverseProxy director)) req = Returned (director req)"

fun servePrefixes :: "string list \<Rightarrow> httpsproxy \<Rightarrow> request \<Rightarrow> request outcome" where
  "servePrefixes [] hp req = handler_ServeHTTP (hp_target hp) req"
| "servePrefixes (pre # rest) hp req =
     (if HasPrefix (Path (URL req)) pre then handler_ServeHTTP (hp_next hp) req
      else servePrefixes rest hp req)"

definition httpsproxy_ServeHTTP :: "httpsproxy \<Rightarrow> request \<Rightarrow> request outcome" where
  "httpsproxy_ServeHTTP hp req = servePrefixes (hp_prefixes hp) hp req"

section \<open>Package connectproxy\<close>

record domainInfo =
  proxyHost :: string
  certPEM :: bytes
  privKeyPEM :: bytes
  httpsProxy :: httpsproxy

text \<open>
  The dispatcher. Of the fields of the Go struct, \<open>redirectAddr\<close> is never read,
  \<open>done\<close> is only written to by the \<open>/quitquitquit\<close> branch of \<open>ServeHTTP\<close>, and
  \<open>proxyMutex\<close> is part of the shared state of the concurrent model below; a request
  running alone always finds the lock free.
\<close>

record Proxy =
  FakeCA :: FakeCA
  LocalMap :: "string \<rightharpoonup> string"
  RemoteMap :: "string \<rightharpoonup> string"
  PrefixMap :: "string \<rightharpoonup> string list"
  ProxyMap :: "string \<rightharpoonup> domainInfo"

definition hostKey :: "string \<Rightarrow> string" where
  "hostKey host = ReplaceAll (TrimPrefix host ''http://'') ''127.0.0.1'' ''localhost''"

text \<open>The two loops of \<open>New\<close>, one step per element of the flag list.\<close>

definition addHostPair :: "string \<Rightarrow> Proxy \<Rightarrow> Proxy" where
  "addHostPair v p =
     (let parts = Split v '','' in
      if length parts = 2 then
        (let localHost = hostKey (parts ! 1) in
         p\<lparr>LocalMap := (LocalMap p)(localHost \<mapsto> parts ! 0),
           RemoteMap := (RemoteMap p)(parts ! 0 \<mapsto> localHost)\<rparr>)
      else p)"

text \<open>Reading a missing key of a Go map of slices gives the nil slice.\<close>

definition prefixesOf :: "Proxy \<Rightarrow> string \<Rightarrow> string list" where
  "prefixesOf p host = (case PrefixMap p host of None \<Rightarrow> [] | Some ps \<Rightarrow> ps)"

definition addPrefixPair :: "string \<Rightarrow> Proxy \<Rightarrow> Proxy" where
  "addPrefixPair v p =
     (let parts = Split v '','' in
      if length parts = 2 then
        p\<lparr>PrefixMap := (PrefixMap p)(parts ! 0 \<mapsto> prefixesOf p (parts ! 0) @ [parts ! 1])\<rparr>
      else p)"

fun rangeOver :: "('a \<Rightarrow> 's \<Rightarrow> 's) \<Rightarrow> 'a list \<Rightarrow> 's \<Rightarrow> 's" where
  "rangeOver body [] s = s"
| "rangeOver body (v # vs) s = rangeOver body vs (body v s)"

definition New :: "FakeCA \<Rightarrow> string list \<Rightarrow> string list \<Rightarrow> Proxy" where
  "New fakeCA hostPairs prefixPairs =
     rangeOver addPrefixPair prefixPairs
       (rangeOver addHostPair hostPairs
          \<lparr>FakeCA = fakeCA, LocalMap = Map.empty, RemoteMap = Map.empty,
           PrefixMap = Map.empty, ProxyMap = Map.empty\<rparr>)"

text \<open>
  What a request handler of the dispatcher does with the client: a redirect
  (\<open>http.Redirect\<close> to the text of a URL), an error reply (\<open>http.Error\<close>), a tunnel
  (status 200, the connection hijacked and copied both ways to the dialled address), the
  shutdown signal with no reply, or \<open>log.Fatal\<close>.
\<close>

datatype response =
    Redirect url nat
  | HttpError string nat
  | Tunnel string
  | Quit
  | Fatal string

text \<open>
  The response writer either does not implement \<open>http.Hijacker\<close>, or its \<open>Hijack\<close>
  answers with an error or with the client connection.
\<close>

datatype ResponseWriter = PlainWriter | Hijacker "error option"

definition errorText :: "error \<Rightarrow> string" where
  "errorText err = (case err of Error msg \<Rightarrow> msg)"

definition redirectToHTTPS :: "lib \<Rightarrow> Proxy \<Rightarrow> request \<Rightarrow> response" where
  "redirectToHTTPS L p req =
     (case LocalMap p (hostKey (Host req)) of
        Some remoteHost \<Rightarrow>
          (let u = (URL req)\<lparr>URLHost := remoteHost\<rparr>;
               u = (if Scheme u = ''http'' then u\<lparr>Scheme := ''https''\<rparr> else u)
           in Redirect u 307)
      | None \<Rightarrow>
          HttpError (pad8 (Method req) @ '' ERROR    '' @ Host req @ '' '' @ url_String L (URL req))
            405)"

text \<open>
  Lines 128 to 157 of \<open>maybeStartHTTPSProxy\<close>: the creation of the proxy of a domain,
  which runs with the table locked for writing.
\<close>

definition createHTTPSProxy ::
  "lib \<Rightarrow> Proxy \<Rightarrow> request \<Rightarrow> string \<Rightarrow> world \<Rightarrow> (error + string) \<times> Proxy \<times> world" where
  "createHTTPSProxy L p req localHost w =
     (let host = url_Hostname L (URL req) in
      case NewCert L (FakeCA p) [host] w of
        (Inl err, w1) \<Rightarrow> (Inl err, p, w1)
      | (Inr (certPEM', privKeyPEM'), w1) \<Rightarrow>
          (case tls_X509KeyPair L certPEM' privKeyPEM' of
             Inl err \<Rightarrow> (Inl err, p, w1)
           | Inr serverCert \<Rightarrow>
               (case httpsproxy_New serverCert localHost (Host req) (prefixesOf p (Host req)) of
                  Inl err \<Rightarrow> (Inl err, p, w1)
                | Inr httpsProxy' \<Rightarrow>
                    (case StartServer L httpsProxy' w1 of
                       (Inl err, hp, w2) \<Rightarrow> (Inl err, p, w2)
                     | (Inr addr, hp, w2) \<Rightarrow>
                         (Inr addr,
                          p\<lparr>ProxyMap := (ProxyMap p)(localHost \<mapsto>
                               \<lparr>proxyHost = addr, certPEM = certPEM',
                                privKeyPEM = privKeyPEM', httpsProxy = hp\<rparr>)\<rparr>,
                          w2)))))"

text \<open>
  \<open>maybeStartHTTPSProxy\<close> when no other request runs between its steps: the lookup under
  the read lock, the second lookup under the write lock, the creation.
\<close>

definition maybeStartHTTPSProxy ::
  "lib \<Rightarrow> Proxy \<Rightarrow> request \<Rightarrow> world \<Rightarrow> (error + string) \<times> Proxy \<times> world" where
  "maybeStartHTTPSProxy L p req w =
     (case RemoteMap p (Host req) of
        None \<Rightarrow> (Inr [], p, w)
      | Some localHost \<Rightarrow>
          (case ProxyMap p localHost of
             Some proxyInfo \<Rightarrow> (Inr (proxyHost proxyInfo), p, w)
           | None \<Rightarrow>
               (case ProxyMap p localHost of
                  Some proxyInfo \<Rightarrow> (Inr (proxyHost proxyInfo), p, w)
                | None \<Rightarrow> createHTTPSProxy L p req localHost w)))"

definition handleConnect ::
  "lib \<Rightarrow> Proxy \<Rightarrow> ResponseWriter \<Rightarrow> request \<Rightarrow> world \<Rightarrow> response \<times> Proxy \<times> world" where
  "handleConnect L p rw req w =
     (case maybeStartHTTPSProxy L p req w of
        (Inl err, p', w') \<Rightarrow> (HttpError (errorText err) 503, p', w')
      | (Inr proxyHost', p', w') \<Rightarrow>
          (let remoteHost = (if proxyHost' \<noteq> [] then proxyHost' else Host req);
               w2 = w'\<lparr>dials := dials w' @ [remoteHost]\<rparr>
           in case net_Dial L w' remoteHost of
                Inl err \<Rightarrow> (HttpError (errorText err) 503, p', w2)
              | Inr targetConn \<Rightarrow>
                  (case rw of
                     PlainWriter \<Rightarrow>
                       (Fatal ''HTTP server doesn't support hijacking connection'', p', w2)
                   | Hijacker (Some err) \<Rightarrow> (Fatal ''HTTP hijacking failed'', p', w2)
                   | Hijacker None \<Rightarrow> (Tunnel remoteHost, p', w2))))"

definition ServeHTTP ::
  "lib \<Rightarrow> Proxy \<Rightarrow> ResponseWriter \<Rightarrow> request \<Rightarrow> world \<Rightarrow> response \<times> Proxy \<times> world" where
  "ServeHTTP L p rw req w =
     (if Path (URL req) = ''/quitquitquit'' then (Quit, p, w)
      else if Method req \<noteq> ''CONNECT'' then (redirectToHTTPS L p req, p, w)
      else handleConnect L p rw req w)"

text \<open>
  An entry is used by \<open>New\<close> when it splits into exactly two fields; then it pairs the
  remote host with the key of the local host.
\<close>

definition wellFormed :: "string \<Rightarrow> bool" where
  "wellFormed v \<longleftrightarrow> length (Split v '','') = 2"

definition hostEntry :: "string \<Rightarrow> string \<times> string" where
  "hostEntry v = (Split v '','' ! 0, hostKey (Split v '','' ! 1))"

section \<open>Concurrent requests: \<open>maybeStartHTTPSProxy\<close> statement by statement\<close>

text \<open>
  The HTTP server runs every request in a goroutine of its own. All accesses to
  \<open>ProxyMap\<close> are made under \<open>proxyMutex\<close>, the other tables are never written after
  \<open>New\<close>, so an execution is an interleaving of the statements of the goroutines. A
  goroutine is at one of the following points of \<open>maybeStartHTTPSProxy\<close>; the point
  carries the local variables that are live there.
\<close>

datatype pc =
    AtLookup
  | AtRLock string
  | AtRead string
  | AtRUnlock string "domainInfo option"
  | AtLock string
  | AtRecheck string
  | AtNewCert string
  | AtKeyPair string bytes bytes
  | AtStart string bytes bytes httpsproxy
  | AtInsert string bytes bytes httpsproxy string
  | AtUnlock "error + string"
  | Done "error + string"

text \<open>
  The shared state: the dispatcher, the two halves of the \<open>sync.RWMutex\<close> (the number of
  goroutines holding it for reading, and whether one holds it for writing), the outside
  world, and the point each goroutine is at. \<open>inserts\<close> is a history of the keys written
  to \<open>ProxyMap\<close>; nothing reads it.
\<close>

record sys =
  proxy :: Proxy
  readers :: nat
  writer :: bool
  env :: world
  pcs :: "nat \<Rightarrow> pc"
  inserts :: "string list"

definition goto :: "nat \<Rightarrow> pc \<Rightarrow> sys \<Rightarrow> sys" where
  "goto t c s = s\<lparr>pcs := (pcs s)(t := c)\<rparr>"

text \<open>
  One statement of goroutine \<open>t\<close>, whose request is \<open>reqs t\<close>. The result is \<open>None\<close>
  when the goroutine cannot move: it has returned, or it waits for the lock. \<open>RLock\<close>
  waits while the lock is held for writing, \<open>Lock\<close> while it is held at all. Go's
  \<open>RWMutex\<close> also holds back a new reader while a writer is waiting; the model lets the
  reader in, so every execution of the program is an execution of the model.
\<close>

definition step :: "lib \<Rightarrow> (nat \<Rightarrow> request) \<Rightarrow> nat \<Rightarrow> sys \<Rightarrow> sys option" where
  "step L reqs t s =
     (let p = proxy s; req = reqs t in
      case pcs s t of
        AtLookup \<Rightarrow>
          (case RemoteMap p (Host req) of
             None \<Rightarrow> Some (goto t (Done (Inr [])) s)
           | Some localHost \<Rightarrow> Some (goto t (AtRLock localHost) s))
      | AtRLock localHost \<Rightarrow>
          if writer s then None
          else Some (goto t (AtRead localHost) (s\<lparr>readers := readers s + 1\<rparr>))
      | AtRead localHost \<Rightarrow>
          Some (goto t (AtRUnlock localHost (ProxyMap p localHost)) s)
      | AtRUnlock localHost found \<Rightarrow>
          Some (goto t (case found of
                          Some proxyInfo \<Rightarrow> Done (Inr (proxyHost proxyInfo))
                        | None \<Rightarrow> AtLock localHost)
                  (s\<lparr>readers := readers s - 1\<rparr>))
      | AtLock localHost \<Rightarrow>
          if writer s \<or> 0 < readers s then None
          else Some (goto t (AtRecheck localHost) (s\<lparr>writer := True\<rparr>))
      | AtRecheck localHost \<Rightarrow>
          (case ProxyMap p localHost of
             Some proxyInfo \<Rightarrow> Some (goto t (AtUnlock (Inr (proxyHost proxyInfo))) s)
           | None \<Rightarrow> Some (goto t (AtNewCert localHost) s))
      | AtNewCert localHost \<Rightarrow>
          (case NewCert L (FakeCA p) [url_Hostname L (URL req)] (env s) of
             (Inl err, w1) \<Rightarrow> Some (goto t (AtUnlock (Inl err)) (s\<lparr>env := w1\<rparr>))
           | (Inr (certPEM', privKeyPEM'), w1) \<Rightarrow>
               Some (goto t (AtKeyPair localHost certPEM' privKeyPEM') (s\<lparr>env := w1\<rparr>)))
      | AtKeyPair localHost certPEM' privKeyPEM' \<Rightarrow>
          (case tls_X509KeyPair L certPEM' privKeyPEM' of
             Inl err \<Rightarrow> Some (goto t (AtUnlock (Inl err)) s)
           | Inr serverCert \<Rightarrow>
               (case httpsproxy_New serverCert localHost (Host req) (prefixesOf p (Host req)) of
                  Inl err \<Rightarrow> Some (goto t (AtUnlock (Inl err)) s)
                | Inr httpsProxy' \<Rightarrow>
                    Some (goto t (AtStart localHost certPEM' privKeyPEM' httpsProxy') s)))
      | AtStart localHost certPEM' privKeyPEM' httpsProxy' \<Rightarrow>
          (case StartServer L httpsProxy' (env s) of
             (Inl err, hp, w2) \<Rightarrow> Some (goto t (AtUnlock (Inl err)) (s\<lparr>env := w2\<rparr>))
           | (Inr addr, hp, w2) \<Rightarrow>
               Some (goto t (AtInsert localHost certPEM' privKeyPEM' hp addr) (s\<lparr>env := w2\<rparr>)))
      | AtInsert localHost certPEM' privKeyPEM' hp addr \<Rightarrow>
          Some (goto t (AtUnlock (Inr addr))
                  (s\<lparr>proxy := p\<lparr>ProxyMap := (ProxyMap p)(localHost \<mapsto>
                                  \<lparr>proxyHost = addr, certPEM = certPEM',
                                   privKeyPEM = privKeyPEM', httpsProxy = hp\<rparr>)\<rparr>,
                     inserts := inserts s @ [localHost]\<rparr>))
      | AtUnlock result \<Rightarrow> Some (goto t (Done result) (s\<lparr>writer := False\<rparr>))
      | Done result \<Rightarrow> None)"

text \<open>
  A schedule names the goroutine that runs next, again and again; the turn of a
  goroutine that cannot move is lost. Every execution is the run of some schedule.
\<close>

definition turn :: "lib \<Rightarrow> (nat \<Rightarrow> request) \<Rightarrow> nat \<Rightarrow> sys \<Rightarrow> sys" where
  "turn L reqs t s = (case step L reqs t s of None \<Rightarrow> s | Some s' \<Rightarrow> s')"

fun run :: "lib \<Rightarrow> (nat \<Rightarrow> request) \<Rightarrow> nat list \<Rightarrow> sys \<Rightarrow> sys" where
  "run L reqs [] s = s"
| "run L reqs (t # sched) s = run L reqs sched (turn L reqs t s)"

definition init :: "Proxy \<Rightarrow> world \<Rightarrow> sys" where
  "init p w = \<lparr>proxy = p, readers = 0, writer = False, env = w,
               pcs = (\<lambda>t. AtLookup), inserts = []\<rparr>"

text \<open>
  The number of terminating proxies set to serve for a local host: \<open>StartServer\<close> logs
  the target host of the proxy, which is the key of the domain.
\<close>

definition started :: "world \<Rightarrow> string \<Rightarrow> nat" where
  "started w localHost =
     length (filter (\<lambda>(addr, targetHost, nextHost). targetHost = localHost) (serving w))"

text \<open>The points at which a goroutine holds the lock for writing.\<close>

fun inWrite :: "pc \<Rightarrow> bool" where
  "inWrite (AtRecheck l) = True"
| "inWrite (AtNewCert l) = True"
| "inWrite (AtKeyPair l c k) = True"
| "inWrite (AtStart l c k hp) = True"
| "inWrite (AtInsert l c k hp a) = True"
| "inWrite (AtUnlock r) = True"
| "inWrite other = False"

text \<open>The points after the second lookup has missed, with the key that is being created.\<close>

fun creating :: "pc \<Rightarrow> string option" where
  "creating (AtNewCert l) = Some l"
| "creating (AtKeyPair l c k) = Some l"
| "creating (AtStart l c k hp) = Some l"
| "creating (AtInsert l c k hp a) = Some l"
| "creating other = None"

text \<open>The point between the start of the server and the write to the table.\<close>

fun pending :: "pc \<Rightarrow> string option" where
  "pending (AtInsert l c k hp a) = Some l"
| "pending other = None"

text \<open>The local host a goroutine has looked up, where it still holds it.\<close>

fun localOf :: "pc \<Rightarrow> string option" where
  "localOf AtLookup = None"
| "localOf (AtRLock l) = Some l"
| "localOf (AtRead l) = Some l"
| "localOf (AtRUnlock l found) = Some l"
| "localOf (AtLock l) = Some l"
| "localOf (AtRecheck l) = Some l"
| "localOf (AtNewCert l) = Some l"
| "localOf (AtKeyPair l c k) = Some l"
| "localOf (AtStart l c k hp) = Some l"
| "localOf (AtInsert l c k hp a) = Some l"
| "localOf (AtUnlock r) = None"
| "localOf (Done r) = None"

text \<open>
  What a goroutine is about to return or has returned is the address in the table: the
  address of the record of its local host, or the empty address when its host has no
  mapping.
\<close>

definition answers :: "Proxy \<Rightarrow> request \<Rightarrow> string \<Rightarrow> bool" where
  "answers p req addr \<longleftrightarrow>
     (case RemoteMap p (Host req) of
        None \<Rightarrow> addr = []
      | Some localHost \<Rightarrow>
          (case ProxyMap p localHost of
             None \<Rightarrow> False
           | Some proxyInfo \<Rightarrow> proxyHost proxyInfo = addr))"

fun result :: "pc \<Rightarrow> (error + string) option" where
  "result (AtUnlock r) = Some r"
| "result (Done r) = Some r"
| "result other = None"

text \<open>
  The invariant of the executions, in parts: only \<open>ProxyMap\<close> of the dispatcher changes;
  a goroutine at a point inside the write lock holds it, and only one does; the local
  host of a goroutine is the one its request maps to; the key a goroutine is creating
  is not in the table; a proxy about to be started has the key as its target host; a
  record found under the read lock is in the table; an address about to be returned
  answers the request; a server is serving for a key exactly when the key is in the
  table or its record is about to be written; a key was written once exactly when it
  is in the table.
\<close>

definition sameTables :: "Proxy \<Rightarrow> sys \<Rightarrow> bool" where
  "sameTables p0 s \<longleftrightarrow>
     FakeCA (proxy s) = FakeCA p0 \<and> LocalMap (proxy s) = LocalMap p0
   \<and> RemoteMap (proxy s) = RemoteMap p0 \<and> PrefixMap (proxy s) = PrefixMap p0"

definition exclusive :: "sys \<Rightarrow> bool" where
  "exclusive s \<longleftrightarrow>
     (\<forall>t. inWrite (pcs s t) \<longrightarrow> writer s)
   \<and> (\<forall>t t'. inWrite (pcs s t) \<longrightarrow> inWrite (pcs s t') \<longrightarrow> t = t')"

definition localsMapped :: "Proxy \<Rightarrow> (nat \<Rightarrow> request) \<Rightarrow> sys \<Rightarrow> bool" where
  "localsMapped p0 reqs s \<longleftrightarrow>
     (\<forall>t l. localOf (pcs s t) = Some l \<longrightarrow> RemoteMap p0 (Host (reqs t)) = Some l)"

definition creatingAbsent :: "sys \<Rightarrow> bool" where
  "creatingAbsent s \<longleftrightarrow> (\<forall>t l. creating (pcs s t) = Some l \<longrightarrow> ProxyMap (proxy s) l = None)"

definition startsKey :: "sys \<Rightarrow> bool" where
  "startsKey s \<longleftrightarrow> (\<forall>t l c k hp. pcs s t = AtStart l c k hp \<longrightarrow> hp_targetHost hp = l)"

definition foundInTable :: "sys \<Rightarrow> bool" where
  "foundInTable s \<longleftrightarrow>
     (\<forall>t l info. pcs s t = AtRUnlock l (Some info) \<longrightarrow> ProxyMap (proxy s) l = Some info)"

definition resultsAnswer :: "(nat \<Rightarrow> request) \<Rightarrow> sys \<Rightarrow> bool" where
  "resultsAnswer reqs s \<longleftrightarrow>
     (\<forall>t a. result (pcs s t) = Some (Inr a) \<longrightarrow> answers (proxy s) (reqs t) a)"

definition servedOnce :: "sys \<Rightarrow> bool" where
  "servedOnce s \<longleftrightarrow>
     (\<forall>l. started (env s) l =
        (if ProxyMap (proxy s) l \<noteq> None \<or> (\<exists>t. pending (pcs s t) = Some l) then 1 else 0))"

definition insertedOnce :: "sys \<Rightarrow> bool" where
  "insertedOnce s \<longleftrightarrow>
     (\<forall>l. count_list (inserts s) l = (if ProxyMap (proxy s) l \<noteq> None then 1 else 0))"

definition inv :: "Proxy \<Rightarrow> (nat \<Rightarrow> request) \<Rightarrow> sys \<Rightarrow> bool" where
  "inv p0 reqs s \<longleftrightarrow>
     sameTables p0 s \<and> exclusive s \<and> localsMapped p0 reqs s \<and> creatingAbsent s
   \<and> startsKey s \<and> foundInTable s \<and> resultsAnswer reqs s \<and> servedOnce s \<and> insertedOnce s"

text \<open>
  The calls that create the proxy of a domain succeed, whatever the state of the world:
  for the request of every goroutine the authority issues the certificate, the pair it
  issues loads as a TLS certificate, the URLs of the local host and of the requested host
  parse, and a port can be bound.
\<close>

definition creationSucceeds :: "lib \<Rightarrow> Proxy \<Rightarrow> (nat \<Rightarrow> request) \<Rightarrow> bool" where
  "creationSucceeds L p reqs \<longleftrightarrow>
     (\<forall>t w. \<exists>c k w'. NewCert L (FakeCA p) [url_Hostname L (URL (reqs t))] w = (Inr (c, k), w'))
   \<and> (\<forall>t w c k w'. NewCert L (FakeCA p) [url_Hostname L (URL (reqs t))] w = (Inr (c, k), w')
          \<longrightarrow> (\<exists>cert. tls_X509KeyPair L c k = Inr cert))
   \<and> (\<forall>t l. RemoteMap p (Host (reqs t)) = Some l \<longrightarrow>
          (\<exists>u. url_Parse L (''http://'' @ l) = Inr u)
        \<and> (\<exists>u. url_Parse L (''https://'' @ Host (reqs t)) = Inr u))
   \<and> (\<forall>w. \<exists>port. net_Listen L w = Inr port)"

text \<open>
  Two more invariants. Under such a library no goroutine is about to return an error: the
  pair a goroutine is about to load was issued for its request, and the proxy it is about
  to start passes through to the host of its request. And the address of a record in the
  table, or about to be written to it, is the address of a server that was set to serve
  for the key of the record.
\<close>

definition unfailing :: "lib \<Rightarrow> Proxy \<Rightarrow> (nat \<Rightarrow> request) \<Rightarrow> sys \<Rightarrow> bool" where
  "unfailing L p0 reqs s \<longleftrightarrow>
     (\<forall>t e. result (pcs s t) \<noteq> Some (Inl e))
   \<and> (\<forall>t l c k. pcs s t = AtKeyPair l c k \<longrightarrow>
          (\<exists>w w'. NewCert L (FakeCA p0) [url_Hostname L (URL (reqs t))] w = (Inr (c, k), w')))
   \<and> (\<forall>t l c k hp. pcs s t = AtStart l c k hp \<longrightarrow> hp_nextHost hp = Host (reqs t))"

definition tableServed :: "sys \<Rightarrow> bool" where
  "tableServed s \<longleftrightarrow>
     (\<forall>l info. ProxyMap (proxy s) l = Some info \<longrightarrow>
          (\<exists>n. (proxyHost info, l, n) \<in> set (serving (env s))))
   \<and> (\<forall>t l c k hp a. pcs s t = AtInsert l c k hp a \<longrightarrow>
          (\<exists>n. (a, l, n) \<in> set (serving (env s))))"

text \<open>
  For progress: the points at which a goroutine holds the lock for reading, the number of
  statements a goroutine has at most before it returns, and the account of the lock:
  the reader count is the number of goroutines inside the read lock, and when the lock
  is held for writing some goroutine is inside the write lock.
\<close>

fun inRead :: "pc \<Rightarrow> bool" where
  "inRead (AtRead l) = True"
| "inRead (AtRUnlock l found) = True"
| "inRead other = False"

fun rank :: "pc \<Rightarrow> nat" where
  "rank AtLookup = 11"
| "rank (AtRLock l) = 10"
| "rank (AtRead l) = 9"
| "rank (AtRUnlock l found) = 8"
| "rank (AtLock l) = 7"
| "rank (AtRecheck l) = 6"
| "rank (AtNewCert l) = 5"
| "rank (AtKeyPair l c k) = 4"
| "rank (AtStart l c k hp) = 3"
| "rank (AtInsert l c k hp a) = 2"
| "rank (AtUnlock r) = 1"
| "rank (Done r) = 0"

definition readersCounted :: "sys \<Rightarrow> bool" where
  "readersCounted s \<longleftrightarrow>
     finite {u. inRead (pcs s u)} \<and> readers s = card {u. inRead (pcs s u)}"

definition writerHeld :: "sys \<Rightarrow> bool" where
  "writerHeld s \<longleftrightarrow> (writer s \<longrightarrow> (\<exists>u. inWrite (pcs s u)))"

text \<open>The goroutines that hold the lock, for reading or for writing.\<close>

definition busy :: "sys \<Rightarrow> nat set" where
  "busy s = {u. inRead (pcs s u) \<or> inWrite (pcs s u)}"

text \<open>The lock is free, or held by goroutine \<open>t\<close> alone.\<close>

definition alone :: "sys \<Rightarrow> nat \<Rightarrow> bool" where
  "alone s t \<longleftrightarrow>
     (writer s \<longrightarrow> inWrite (pcs s t)) \<and> readers s = (if inRead (pcs s t) then 1 else 0)"

section \<open>Fixtures for the worked examples\<close>

definition testKey :: rsa_PrivateKey where
  "testKey = \<lparr>PublicKey = \<lparr>N = 3233, E = 17\<rparr>, D = 2753\<rparr>"

definition testRoot :: x509_Certificate where
  "testRoot = \<lparr>SerialNumber = 2019, Subject = newName, IPAddresses = [], NotBefore = 0,
     NotAfter = 1000, SubjectKeyId = [], DNSNames = [],
     ExtKeyUsages = [ExtKeyUsageClientAuth, ExtKeyUsageServerAuth],
     KeyUsages = {KeyUsageDigitalSignature, KeyUsageCertSign}, IsCA = True,
     BasicConstraintsValid = True\<rparr>"

definition testCA :: FakeCA where
  "testCA = \<lparr>PrivKey = testKey, Cert = testRoot, PrivKeyPEM = [1, 7], CertPEM = [2, 9]\<rparr>"

text \<open>
  A stand-in library for the worked examples. Its PEM codec tags a block with one byte
  (1 for a private key, 2 for a certificate), and like \<open>pem.Decode\<close> it finds no block in
  empty input; like \<open>url.Parse\<close> its parser ends the host of a URL at the first slash,
  where the path begins; its key generator, signer, listener and dialler always succeed.
\<close>

definition testDecode :: "bytes \<Rightarrow> pem_Block option" where
  "testDecode b =
     (case b of
        [] \<Rightarrow> None
      | t # rest \<Rightarrow>
          Some \<lparr>Type = (if t = 1 then ''RSA PRIVATE KEY''
                         else if t = 2 then ''CERTIFICATE'' else ''PUBLIC KEY''),
                Bytes = rest\<rparr>)"

definition testEncode :: "pem_Block \<Rightarrow> bytes \<times> error option" where
  "testEncode b = ((if Type b = ''RSA PRIVATE KEY'' then 1 else 2) # Bytes b, None)"

definition testParse :: "string \<Rightarrow> error + url" where
  "testParse s =
     (if HasPrefix s ''https://''
      then Inr \<lparr>Scheme = ''https'', URLHost = takeWhile (\<lambda>c. c \<noteq> CHR ''/'') (drop 8 s),
                Path = dropWhile (\<lambda>c. c \<noteq> CHR ''/'') (drop 8 s), RawQuery = []\<rparr>
      else if HasPrefix s ''http://''
      then Inr \<lparr>Scheme = ''http'', URLHost = takeWhile (\<lambda>c. c \<noteq> CHR ''/'') (drop 7 s),
                Path = dropWhile (\<lambda>c. c \<noteq> CHR ''/'') (drop 7 s), RawQuery = []\<rparr>
      else Inl (Error ''missing protocol scheme''))"

definition testDirector :: "url \<Rightarrow> request \<Rightarrow> request" where
  "testDirector u r = r\<lparr>URL := (URL r)\<lparr>Scheme := Scheme u, URLHost := URLHost u\<rparr>\<rparr>"

definition testLib :: lib where
  "testLib =
     \<lparr>pem_Decode = testDecode,
      pem_Encode = testEncode,
      x509_ParsePKCS1PrivateKey =
        (\<lambda>b. if b = [7] then Inr (Some testKey)
             else Inl (Error ''x509: failed to parse private key'')),
      x509_ParseCertificate =
        (\<lambda>b. if b = [9] then Inr testRoot else Inl (Error ''x509: malformed certificate'')),
      x509_MarshalPKCS1PrivateKey = (\<lambda>k. [7]),
      x509_CreateCertificate = (\<lambda>template parent pub priv. Inr [8]),
      rsa_GenerateKey = (\<lambda>w bits. Inr testKey),
      time_Now = (\<lambda>tick. int tick),
      time_AddDate = (\<lambda>t years months days. t + 365 * years + 30 * months + days),
      tls_X509KeyPair = (\<lambda>c k. Inr \<lparr>Certificate = c, PrivateKey = k\<rparr>),
      url_Parse = testParse,
      url_Hostname = (\<lambda>u. takeWhile (\<lambda>c. c \<noteq> CHR '':'') (URLHost u)),
      url_String = (\<lambda>u. Scheme u @ ''://'' @ URLHost u @ Path u),
      default_director = testDirector,
      net_Listen = (\<lambda>w. Inr (40000 + length (listeners w))),
      net_Dial = (\<lambda>w a. Inr ())\<rparr>"

definition world0 :: world where
  "world0 = \<lparr>clock = 0, issued = [], listeners = [], serving = [], dials = []\<rparr>"

definition testProxy :: Proxy where
  "testProxy = New testCA [''a.com:443,127.0.0.1:7777''] [''a.com:443,/api'']"

text \<open>
  \<open>x509.CreateCertificate\<close> takes the issuer of the new certificate from the subject of
  the parent and the serial number from the template; the pair names a certificate.
\<close>

definition issuerAndSerial :: "x509_Certificate \<Rightarrow> x509_Certificate \<Rightarrow> pkix_Name \<times> int" where
  "issuerAndSerial template parent = (Subject parent, SerialNumber template)"

definition testHP0 :: httpsproxy where
  "testHP0 =
     \<lparr>hp_cfg = \<lparr>MinVersion = 0x0303, CurvePreferences = [25, 24, 23],
                PreferServerCipherSuites = True,
                CipherSuites = [0xc030, 0xc014, 0x009d, 0x0035],
                Certificates = [\<lparr>Certificate = [2, 8], PrivateKey = [1, 7]\<rparr>]\<rparr>,
      hp_target = None, hp_targetHost = ''localhost:7777'',
      hp_next = None, hp_nextHost = ''a.com:443'', hp_prefixes = [''/api'']\<rparr>"

definition testHP :: httpsproxy where
  "testHP = fst (snd (StartServer testLib testHP0 world0))"

text \<open>A terminating proxy whose pass-through host is written with a path.\<close>

definition basedHP0 :: httpsproxy where
  "basedHP0 = testHP0\<lparr>hp_nextHost := ''a.com:443/base''\<rparr>"

definition basedHP :: httpsproxy where
  "basedHP = fst (snd (StartServer testLib basedHP0 world0))"

definition testGet :: "string \<Rightarrow> request" where
  "testGet path = \<lparr>Method = ''GET'', Host = ''a.com'',
     URL = \<lparr>Scheme = [], URLHost = [], Path = path, RawQuery = []\<rparr>\<rparr>"

definition testConnect :: "string \<Rightarrow> request" where
  "testConnect host = \<lparr>Method = ''CONNECT'', Host = host,
     URL = \<lparr>Scheme = [], URLHost = host, Path = [], RawQuery = []\<rparr>\<rparr>"

definition testLibNoListen :: lib where
  "testLibNoListen =
     testLib\<lparr>net_Listen := (\<lambda>w. Inl (Error ''listen tcp :0: too many open files''))\<rparr>"

text \<open>
  Two goroutines, 0 and 2, with the same CONNECT request, scheduled so that both miss under the read
  lock before either takes the write lock; the second loses two turns waiting for it.
\<close>

definition sched2 :: "nat list" where
  "sched2 = [0, 2, 0, 2, 0, 2, 0, 2, 0, 2, 0, 0, 2, 0, 0, 0, 0, 2, 2, 2]"

definition race2 :: sys where
  "race2 = run testLib (\<lambda>t. testConnect ''a.com:443'') sched2 (init testProxy world0)"

chapter \<open>Properties\<close>

section \<open>Strings\<close>

lemma HasPrefix_iff_prefix: "HasPrefix s pre \<longleftrightarrow> prefix pre s"
  by (auto simp: HasPrefix_def prefix_def) (metis append_take_drop_id)

lemma TrimPrefix_append: "TrimPrefix (pre @ s) pre = s"
  by (simp add: TrimPrefix_def HasPrefix_def)

lemma hostKey_loopback: "hostKey (''127.0.0.1'' @ rest) = hostKey (''localhost'' @ rest)"
  by (simp add: hostKey_def TrimPrefix_def HasPrefix_def)

lemma hostKey_scheme:
  assumes "\<not> HasPrefix h ''http://''"
  shows "hostKey (''http://'' @ h) = hostKey h"
proof -
  have "TrimPrefix h ''http://'' = h"
    using assms by (simp add: TrimPrefix_def)
  then show ?thesis
    by (simp only: hostKey_def TrimPrefix_append)
qed

lemma ReplaceAll_skip:
  assumes "old \<noteq> []" and "hd old \<notin> set a"
  shows "ReplaceAll (a @ s) old new = a @ ReplaceAll s old new"
  using assms
proof (induction a)
  case Nil
  then show ?case by simp
next
  case (Cons c cs)
  have "\<not> HasPrefix (c # cs @ s) old"
    using Cons.prems by (cases old) (auto simp: HasPrefix_def)
  with Cons show ?case by simp
qed

lemma ReplaceAll_here:
  "old \<noteq> [] \<Longrightarrow> ReplaceAll (old @ s) old new = new @ ReplaceAll s old new"
  by (cases old) (simp_all add: HasPrefix_def)

lemma HasPrefix_append_other:
  assumes "c \<notin> set pre"
  shows "HasPrefix (a @ c # rest) pre \<longleftrightarrow> HasPrefix a pre"
proof -
  have "prefix pre (a @ c # rest) \<longleftrightarrow> prefix pre a"
  proof
    assume "prefix pre (a @ c # rest)"
    then consider "prefix pre a" | us where "pre = a @ us" "prefix us (c # rest)"
      by (auto simp: prefix_append)
    then show "prefix pre a"
    proof cases
      case 2
      then show ?thesis using assms by (cases us) auto
    qed
  qed simp
  then show ?thesis by (simp add: HasPrefix_iff_prefix)
qed

lemma TrimPrefix_append_other:
  assumes "c \<notin> set pre"
  shows "TrimPrefix (a @ c # rest) pre = TrimPrefix a pre @ c # rest"
  using HasPrefix_append_other [OF assms, of a rest]
  by (simp add: TrimPrefix_def HasPrefix_def)

lemma set_TrimPrefix: "set (TrimPrefix a pre) \<subseteq> set a"
  by (simp add: TrimPrefix_def set_drop_subset)

lemma hostKey_loopback_within:
  assumes "CHR ''1'' \<notin> set a"
  shows "hostKey (a @ ''127.0.0.1'' @ rest) = hostKey (a @ ''localhost'' @ rest)"
proof -
  let ?a = "TrimPrefix a ''http://''"
  have a: "hd ''127.0.0.1'' \<notin> set ?a"
    using assms set_TrimPrefix [of a "''http://''"] by auto
  have t1: "TrimPrefix (a @ ''127.0.0.1'' @ rest) ''http://'' = ?a @ ''127.0.0.1'' @ rest"
    using TrimPrefix_append_other [of "CHR ''1''" "''http://''" a "''27.0.0.1'' @ rest"] by simp
  have t2: "TrimPrefix (a @ ''localhost'' @ rest) ''http://'' = ?a @ ''localhost'' @ rest"
    using TrimPrefix_append_other [of "CHR ''l''" "''http://''" a "''ocalhost'' @ rest"] by simp
  have l: "ReplaceAll (''localhost'' @ s) ''127.0.0.1'' new = ''localhost'' @ ReplaceAll s ''127.0.0.1'' new"
    for s new
    by (rule ReplaceAll_skip) simp_all
  have skip: "ReplaceAll (?a @ s) ''127.0.0.1'' ''localhost''
      = ?a @ ReplaceAll s ''127.0.0.1'' ''localhost''" for s
    by (rule ReplaceAll_skip [OF _ a]) simp
  have here: "ReplaceAll (''127.0.0.1'' @ s) ''127.0.0.1'' ''localhost''
      = ''localhost'' @ ReplaceAll s ''127.0.0.1'' ''localhost''" for s
    by (rule ReplaceAll_here) simp
  have "hostKey (a @ ''127.0.0.1'' @ rest)
      = ?a @ ''localhost'' @ ReplaceAll rest ''127.0.0.1'' ''localhost''"
    by (simp only: hostKey_def t1 skip here)
  moreover have "hostKey (a @ ''localhost'' @ rest)
      = ?a @ ''localhost'' @ ReplaceAll rest ''127.0.0.1'' ''localhost''"
    by (simp only: hostKey_def t2 skip l)
  ultimately show ?thesis by simp
qed

lemma hostKey_plain:
  assumes "CHR ''1'' \<notin> set h"
  shows "hostKey (''http://'' @ h) = h"
proof -
  have "ReplaceAll (h @ []) ''127.0.0.1'' ''localhost'' = h @ ReplaceAll [] ''127.0.0.1'' ''localhost''"
    by (rule ReplaceAll_skip) (use assms in simp_all)
  then show ?thesis
    by (simp only: hostKey_def TrimPrefix_append) simp
qed

section \<open>The tables built by \<open>New\<close>\<close>

lemma rangeOver_append: "rangeOver f (xs @ ys) s = rangeOver f ys (rangeOver f xs s)"
  by (induction xs arbitrary: s) auto

lemma LocalMap_rangeOver:
  "LocalMap (rangeOver addHostPair vs p) =
     LocalMap p ++ map_of (rev (map (\<lambda>v. (snd (hostEntry v), fst (hostEntry v)))
                                  (filter wellFormed vs)))"
  by (induction vs arbitrary: p)
     (auto simp: addHostPair_def wellFormed_def hostEntry_def Let_def)

lemma RemoteMap_rangeOver:
  "RemoteMap (rangeOver addHostPair vs p) =
     RemoteMap p ++ map_of (rev (map hostEntry (filter wellFormed vs)))"
  by (induction vs arbitrary: p)
     (auto simp: addHostPair_def wellFormed_def hostEntry_def Let_def)

lemma prefix_keeps_hosts:
  "LocalMap (rangeOver addPrefixPair vs p) = LocalMap p
   \<and> RemoteMap (rangeOver addPrefixPair vs p) = RemoteMap p
   \<and> ProxyMap (rangeOver addPrefixPair vs p) = ProxyMap p
   \<and> FakeCA (rangeOver addPrefixPair vs p) = FakeCA p"
  by (induction vs arbitrary: p) (auto simp: addPrefixPair_def Let_def)

lemma map_of_functional:
  assumes "(k, v) \<in> set es" and "\<forall>v'. (k, v') \<in> set es \<longrightarrow> v' = v"
  shows "map_of es k = Some v"
proof -
  obtain v' where "map_of es k = Some v'"
    using assms(1) weak_map_of_SomeI by fastforce
  moreover then have "(k, v') \<in> set es"
    by (rule map_of_SomeD)
  ultimately show ?thesis
    using assms(2) by simp
qed

lemma addHostPair_malformed: "length (Split e '','') \<noteq> 2 \<Longrightarrow> addHostPair e p = p"
  by (simp add: addHostPair_def)

lemma addPrefixPair_malformed: "length (Split e '','') \<noteq> 2 \<Longrightarrow> addPrefixPair e p = p"
  by (simp add: addPrefixPair_def)

text \<open>
  C4, as stated, fails: the two tables are plain maps that later entries overwrite, so
  two entries that share the remote host (or the local key) leave \<open>LocalMap\<close> and
  \<open>RemoteMap\<close> out of step. Here two local servers are paired with one remote host.
\<close>

theorem New_host_maps_not_inverse:
  "length (Split ''a.com:443,localhost:7777'' '','') = 2
   \<and> length (Split ''a.com:443,localhost:8888'' '','') = 2
   \<and> LocalMap (New testCA [''a.com:443,localhost:7777'', ''a.com:443,localhost:8888''] [])
        ''localhost:7777'' = Some ''a.com:443''
   \<and> RemoteMap (New testCA [''a.com:443,localhost:7777'', ''a.com:443,localhost:8888''] [])
        ''a.com:443'' = Some ''localhost:8888''"
  by (simp add: New_def addHostPair_def Split_def HasPrefix_def hostKey_def TrimPrefix_def Let_def)

text \<open>
  C4, amended: when the well-formed entries pair remote hosts and normalised local hosts
  one to one (two entries have the same remote host exactly when they have the same
  local key), \<open>LocalMap\<close> sends every entry's local key to its remote host, \<open>RemoteMap\<close>
  sends the remote host back, and the two maps are inverse to each other. The key of a
  host strips a leading \<open>http://\<close> and treats \<open>127.0.0.1\<close> and \<open>localhost\<close> as the
  same: \<open>http://a.com\<close> and \<open>a.com\<close> have the same key, and so have \<open>127.0.0.1:7777\<close>
  and \<open>localhost:7777\<close>. In general a host written with and without the scheme has the
  same key; the key of \<open>http://\<close> followed by a host without the digit 1 is that host,
  unchanged; and two hosts that differ in one place, after a part without the digit 1,
  by \<open>127.0.0.1\<close> for \<open>localhost\<close> have the same key.
\<close>

theorem New_host_maps_inverse:
  assumes wf: "\<forall>v \<in> set hostPairs. length (Split v '','') = 2"
    and bij: "\<forall>v \<in> set hostPairs. \<forall>v' \<in> set hostPairs.
        (Split v '','' ! 0 = Split v' '','' ! 0)
          \<longleftrightarrow> (hostKey (Split v '','' ! 1) = hostKey (Split v' '','' ! 1))"
  shows "(\<forall>v \<in> set hostPairs.
            LocalMap (New ca hostPairs prefixPairs) (hostKey (Split v '','' ! 1))
              = Some (Split v '','' ! 0)
          \<and> RemoteMap (New ca hostPairs prefixPairs) (Split v '','' ! 0)
              = Some (hostKey (Split v '','' ! 1)))
       \<and> (\<forall>l r. LocalMap (New ca hostPairs prefixPairs) l = Some r
                \<longleftrightarrow> RemoteMap (New ca hostPairs prefixPairs) r = Some l)
       \<and> hostKey ''http://a.com'' = hostKey ''a.com''
       \<and> hostKey ''127.0.0.1:7777'' = hostKey ''localhost:7777''
       \<and> (\<forall>h. \<not> HasPrefix h ''http://'' \<longrightarrow> hostKey (''http://'' @ h) = hostKey h)
       \<and> (\<forall>rest. hostKey (''127.0.0.1'' @ rest) = hostKey (''localhost'' @ rest))
       \<and> (\<forall>h. CHR ''1'' \<notin> set h \<longrightarrow> hostKey (''http://'' @ h) = h)
       \<and> (\<forall>a rest. CHR ''1'' \<notin> set a \<longrightarrow>
             hostKey (a @ ''127.0.0.1'' @ rest) = hostKey (a @ ''localhost'' @ rest))"
proof -
  let ?es = "rev (map hostEntry hostPairs)"
  let ?se = "rev (map (\<lambda>v. (snd (hostEntry v), fst (hostEntry v))) hostPairs)"
  have flt: "filter wellFormed hostPairs = hostPairs"
    using wf by (simp add: wellFormed_def)
  have L: "LocalMap (New ca hostPairs prefixPairs) = map_of ?se"
    by (simp add: New_def prefix_keeps_hosts LocalMap_rangeOver flt)
  have R: "RemoteMap (New ca hostPairs prefixPairs) = map_of ?es"
    by (simp add: New_def prefix_keeps_hosts RemoteMap_rangeOver flt)
  have inj: "\<And>r l r' l'. (r, l) \<in> set ?es \<Longrightarrow> (r', l') \<in> set ?es \<Longrightarrow> (r = r') = (l = l')"
    using bij by (auto simp: hostEntry_def)
  have swap: "\<And>r l. (l, r) \<in> set ?se \<longleftrightarrow> (r, l) \<in> set ?es"
  proof -
    fix r l
    have "(l, r) \<in> set ?se
        \<longleftrightarrow> (\<exists>v \<in> set hostPairs. l = snd (hostEntry v) \<and> r = fst (hostEntry v))"
      by (auto simp: image_iff)
    also have "\<dots> \<longleftrightarrow> (\<exists>v \<in> set hostPairs. (r, l) = hostEntry v)"
      by (simp add: prod_eq_iff conj_commute)
    also have "\<dots> \<longleftrightarrow> (r, l) \<in> set ?es"
      by (auto simp: image_iff)
    finally show "(l, r) \<in> set ?se \<longleftrightarrow> (r, l) \<in> set ?es" .
  qed
  have Rin: "map_of ?es r = Some l \<longleftrightarrow> (r, l) \<in> set ?es" for r l
  proof
    assume "map_of ?es r = Some l"
    then show "(r, l) \<in> set ?es" by (rule map_of_SomeD)
  next
    assume a: "(r, l) \<in> set ?es"
    show "map_of ?es r = Some l"
      by (rule map_of_functional [OF a]) (use inj a in blast)
  qed
  have Lin: "map_of ?se l = Some r \<longleftrightarrow> (r, l) \<in> set ?es" for r l
  proof
    assume "map_of ?se l = Some r"
    then have "(l, r) \<in> set ?se" by (rule map_of_SomeD)
    then show "(r, l) \<in> set ?es" by (simp only: swap)
  next
    assume a: "(r, l) \<in> set ?es"
    then have b: "(l, r) \<in> set ?se" by (simp only: swap)
    show "map_of ?se l = Some r"
    proof (rule map_of_functional [OF b], intro allI impI)
      fix r' assume "(l, r') \<in> set ?se"
      then have "(r', l) \<in> set ?es" by (simp only: swap)
      with a inj show "r' = r" by blast
    qed
  qed
  have mem: "\<And>v. v \<in> set hostPairs
      \<Longrightarrow> (Split v '','' ! 0, hostKey (Split v '','' ! 1)) \<in> set ?es"
    by (auto simp: hostEntry_def image_iff)
  have tables: "(\<forall>v \<in> set hostPairs.
            LocalMap (New ca hostPairs prefixPairs) (hostKey (Split v '','' ! 1))
              = Some (Split v '','' ! 0)
          \<and> RemoteMap (New ca hostPairs prefixPairs) (Split v '','' ! 0)
              = Some (hostKey (Split v '','' ! 1)))
       \<and> (\<forall>l r. LocalMap (New ca hostPairs prefixPairs) l = Some r
                \<longleftrightarrow> RemoteMap (New ca hostPairs prefixPairs) r = Some l)"
    using mem by (simp add: L R Lin Rin)
  have keys: "hostKey ''http://a.com'' = hostKey ''a.com''
       \<and> hostKey ''127.0.0.1:7777'' = hostKey ''localhost:7777''"
    by (simp add: hostKey_def TrimPrefix_def HasPrefix_def)
  show ?thesis
    using tables keys hostKey_scheme hostKey_loopback hostKey_plain hostKey_loopback_within
    by blast
qed

theorem New_host_maps_inverse_witness:
  "length (Split ''a.com:443,127.0.0.1:7777'' '','') = 2
   \<and> length (Split ''b.org:443,http://localhost:8888'' '','') = 2
   \<and> LocalMap (New testCA [''a.com:443,127.0.0.1:7777'', ''b.org:443,http://localhost:8888''] [])
        ''localhost:7777'' = Some ''a.com:443''
   \<and> RemoteMap (New testCA [''a.com:443,127.0.0.1:7777'', ''b.org:443,http://localhost:8888''] [])
        ''b.org:443'' = Some ''localhost:8888''
   \<and> LocalMap (New testCA [''a.com:443,127.0.0.1:7777'', ''b.org:443,http://localhost:8888''] [])
        ''localhost:8888'' = Some ''b.org:443''
   \<and> hostKey ''http://http://a.com'' = ''http://a.com''
   \<and> hostKey ''dev.127.0.0.1:7777'' = hostKey ''dev.localhost:7777''
   \<and> hostKey ''127.0.0.1:8080,127.0.0.1:9090'' = hostKey ''localhost:8080,127.0.0.1:9090''
   \<and> hostKey ''localhost:8080,127.0.0.1:9090'' = hostKey ''localhost:8080,localhost:9090''"
proof -
  let ?hp = "[''a.com:443,127.0.0.1:7777'', ''b.org:443,http://localhost:8888'']"
  have s1: "Split ''a.com:443,127.0.0.1:7777'' '','' = [''a.com:443'', ''127.0.0.1:7777'']"
    by (simp add: Split_def HasPrefix_def)
  have s2: "Split ''b.org:443,http://localhost:8888'' '','' = [''b.org:443'', ''http://localhost:8888'']"
    by (simp add: Split_def HasPrefix_def)
  have k1: "hostKey ''127.0.0.1:7777'' = ''localhost:7777''"
    by (simp add: hostKey_def TrimPrefix_def HasPrefix_def)
  have k2: "hostKey ''http://localhost:8888'' = ''localhost:8888''"
    by (simp add: hostKey_def TrimPrefix_def HasPrefix_def)
  have wf: "\<forall>v \<in> set ?hp. length (Split v '','') = 2"
    by (simp add: s1 s2)
  have bij: "\<forall>v \<in> set ?hp. \<forall>v' \<in> set ?hp.
        (Split v '','' ! 0 = Split v' '','' ! 0)
          \<longleftrightarrow> (hostKey (Split v '','' ! 1) = hostKey (Split v' '','' ! 1))"
    by (simp add: s1 s2 k1 k2)
  note inst = New_host_maps_inverse [OF wf bij, of testCA "[]"]
  from inst have tables: "\<forall>v \<in> set ?hp.
            LocalMap (New testCA ?hp []) (hostKey (Split v '','' ! 1)) = Some (Split v '','' ! 0)
          \<and> RemoteMap (New testCA ?hp []) (Split v '','' ! 0) = Some (hostKey (Split v '','' ! 1))"
    by (rule conjunct1)
  from inst have plain: "\<forall>h. CHR ''1'' \<notin> set h \<longrightarrow> hostKey (''http://'' @ h) = h"
    by (elim conjE)
  from inst have within: "\<forall>a rest. CHR ''1'' \<notin> set a \<longrightarrow>
             hostKey (a @ ''127.0.0.1'' @ rest) = hostKey (a @ ''localhost'' @ rest)"
    by (elim conjE)
  have t: "LocalMap (New testCA ?hp []) ''localhost:7777'' = Some ''a.com:443''
      \<and> RemoteMap (New testCA ?hp []) ''b.org:443'' = Some ''localhost:8888''
      \<and> LocalMap (New testCA ?hp []) ''localhost:8888'' = Some ''b.org:443''"
    using tables by (simp add: s1 s2 k1 k2)
  have p: "hostKey ''http://http://a.com'' = ''http://a.com''"
    using plain [rule_format, of "''http://a.com''"] by simp
  have w1: "hostKey ''dev.127.0.0.1:7777'' = hostKey ''dev.localhost:7777''"
    using within [rule_format, of "''dev.''" "'':7777''"] by simp
  have w2: "hostKey ''127.0.0.1:8080,127.0.0.1:9090'' = hostKey ''localhost:8080,127.0.0.1:9090''"
    using within [rule_format, of "[]" "'':8080,127.0.0.1:9090''"] by simp
  have w3: "hostKey ''localhost:8080,127.0.0.1:9090'' = hostKey ''localhost:8080,localhost:9090''"
    using within [rule_format, of "''localhost:8080,''" "'':9090''"] by simp
  show ?thesis
    using t p w1 w2 w3 by (simp add: s1 s2)
qed

text \<open>
  C9: an entry of \<open>host_pair\<close> or \<open>prefix_pair\<close> that does not split into exactly two
  fields leaves no trace: \<open>New\<close> builds the same dispatcher, all tables included, as
  from the list without that entry.
\<close>

theorem New_ignores_malformed:
  assumes "length (Split e '','') \<noteq> 2"
  shows "New ca (hs @ e # hs') pp = New ca (hs @ hs') pp
       \<and> New ca hp (ps @ e # ps') = New ca hp (ps @ ps')"
  using assms
  by (simp add: New_def rangeOver_append addHostPair_malformed addPrefixPair_malformed)

theorem New_ignores_malformed_witness:
  "length (Split ''a.com:443,localhost:7777,extra'' '','') \<noteq> 2
   \<and> New testCA [''b.org:443,localhost:8888'', ''a.com:443,localhost:7777,extra''] [''b.org:443,/api'']
       = New testCA [''b.org:443,localhost:8888''] [''b.org:443,/api'']
   \<and> New testCA [''b.org:443,localhost:8888''] [''a.com:443,localhost:7777,extra'', ''b.org:443,/api'']
       = New testCA [''b.org:443,localhost:8888''] [''b.org:443,/api'']
   \<and> RemoteMap (New testCA [''b.org:443,localhost:8888'', ''a.com:443,localhost:7777,extra''] [''b.org:443,/api''])
        ''a.com:443'' = None"
proof -
  have e: "length (Split ''a.com:443,localhost:7777,extra'' '','') \<noteq> 2"
    by (simp add: Split_def HasPrefix_def)
  have r: "RemoteMap (New testCA [''b.org:443,localhost:8888''] [''b.org:443,/api'']) ''a.com:443'' = None"
    by (simp add: New_def addHostPair_def addPrefixPair_def Split_def HasPrefix_def
        hostKey_def TrimPrefix_def Let_def)
  show ?thesis
    using New_ignores_malformed [OF e, where ca = testCA and hs = "[''b.org:443,localhost:8888'']"
        and hs' = "[]" and pp = "[''b.org:443,/api'']" and hp = "[''b.org:443,localhost:8888'']"
        and ps = "[]" and ps' = "[''b.org:443,/api'']"] e r
    by simp
qed

section \<open>The fake authority\<close>

text \<open>
  C1 asks that \<open>FromKeyPair\<close> answers every malformed input with an error. It does not:
  when the key is a well-formed RSA key and the certificate bytes hold no PEM block, the
  decoded certificate block is nil and reading its \<open>Type\<close> panics. The check that guards
  the read tests the parsed key where the key's own path tests the block.
\<close>

theorem FromKeyPair_nil_certificate_block:
  assumes "pem_Decode L rootKeyPEM = Some keyDER"
    and "Type keyDER = ''RSA PRIVATE KEY''"
    and "x509_ParsePKCS1PrivateKey L (Bytes keyDER) = Inr (Some key)"
    and "pem_Decode L rootCertPEM = None"
  shows "FromKeyPair L rootKeyPEM rootCertPEM = Panic ''invalid memory address or nil pointer dereference''"
  using assms by (simp add: FromKeyPair_def)

lemma testLib_simps:
  "pem_Decode testLib = testDecode"
  "pem_Encode testLib = testEncode"
  "x509_ParsePKCS1PrivateKey testLib [7] = Inr (Some testKey)"
  "x509_ParseCertificate testLib [9] = Inr testRoot"
  "x509_MarshalPKCS1PrivateKey testLib key = [7]"
  "x509_CreateCertificate testLib t p pub priv = Inr [8]"
  "rsa_GenerateKey testLib w bits = Inr testKey"
  "tls_X509KeyPair testLib c k = Inr \<lparr>Certificate = c, PrivateKey = k\<rparr>"
  "url_Parse testLib = testParse"
  "default_director testLib = testDirector"
  "net_Listen testLib w = Inr (40000 + length (listeners w))"
  "net_Dial testLib w a = Inr ()"
  by (simp_all add: testLib_def)

theorem FromKeyPair_nil_certificate_block_witness:
  "pem_Decode testLib [1, 7] = Some \<lparr>Type = ''RSA PRIVATE KEY'', Bytes = [7]\<rparr>
   \<and> x509_ParsePKCS1PrivateKey testLib [7] = Inr (Some testKey)
   \<and> pem_Decode testLib [] = None
   \<and> FromKeyPair testLib [1, 7] [] = Panic ''invalid memory address or nil pointer dereference''"
proof -
  have d: "pem_Decode testLib [1, 7] = Some \<lparr>Type = ''RSA PRIVATE KEY'', Bytes = [7]\<rparr>"
    by (simp add: testLib_simps testDecode_def)
  have t: "Type \<lparr>Type = ''RSA PRIVATE KEY'', Bytes = [7]\<rparr> = ''RSA PRIVATE KEY''"
    by simp
  have k: "x509_ParsePKCS1PrivateKey testLib (Bytes \<lparr>Type = ''RSA PRIVATE KEY'', Bytes = [7::byte]\<rparr>) = Inr (Some testKey)"
    by (simp add: testLib_simps)
  have n: "pem_Decode testLib [] = None"
    by (simp add: testLib_simps testDecode_def)
  show ?thesis
    using FromKeyPair_nil_certificate_block [OF d t k n] d n by (simp add: testLib_simps)
qed

text \<open>
  C10: whatever names are asked for, the certificate that \<open>NewCert\<close> hands to
  \<open>x509.CreateCertificate\<close> has the serial number 1658 and the subject key identifier
  \<open>[1, 2, 3, 4, 6]\<close>; the leaf that \<open>NewCert\<close> returns is the encoding of what the
  library signed from that template under the root. So two leaves of one root, for any
  two name lists and at any two times, have the same issuer and serial number.
\<close>

theorem NewCert_constant_serial:
  "SerialNumber (leafTemplate L tick dnsNames) = 1658
   \<and> SubjectKeyId (leafTemplate L tick dnsNames) = [1, 2, 3, 4, 6]
   \<and> (NewCert L ca dnsNames w = (Inr (leafPEM, leafKeyPEM), w') \<longrightarrow>
        (\<exists>key der. rsa_GenerateKey L w 4096 = Inr key
           \<and> x509_CreateCertificate L (leafTemplate L (clock w) dnsNames) (Cert ca)
                (PublicKey key) (PrivKey ca) = Inr der
           \<and> leafPEM = fst (pem_Encode L \<lparr>Type = ''CERTIFICATE'', Bytes = der\<rparr>)))
   \<and> issuerAndSerial (leafTemplate L tick dnsNames) (Cert ca)
       = issuerAndSerial (leafTemplate L tick' dnsNames') (Cert ca)"
proof -
  have fields: "SerialNumber (leafTemplate L tick dnsNames) = 1658
      \<and> SubjectKeyId (leafTemplate L tick dnsNames) = [1, 2, 3, 4, 6]"
    by (simp add: leafTemplate_def)
  have pair: "issuerAndSerial (leafTemplate L tick dnsNames) (Cert ca)
       = issuerAndSerial (leafTemplate L tick' dnsNames') (Cert ca)"
    by (simp add: issuerAndSerial_def leafTemplate_def)
  have signed: "NewCert L ca dnsNames w = (Inr (leafPEM, leafKeyPEM), w') \<longrightarrow>
        (\<exists>key der. rsa_GenerateKey L w 4096 = Inr key
           \<and> x509_CreateCertificate L (leafTemplate L (clock w) dnsNames) (Cert ca)
                (PublicKey key) (PrivKey ca) = Inr der
           \<and> leafPEM = fst (pem_Encode L \<lparr>Type = ''CERTIFICATE'', Bytes = der\<rparr>))"
    by (auto simp: NewCert_def Let_def split: sum.splits prod.splits option.splits)
  show ?thesis
    using fields pair signed by blast
qed

theorem NewCert_constant_serial_witness:
  "fst (NewCert testLib testCA [''a.com''] world0) = Inr ([2, 8], [1, 7])
   \<and> fst (NewCert testLib testCA [''b.org''] world0) = Inr ([2, 8], [1, 7])
   \<and> x509_CreateCertificate testLib (leafTemplate testLib 0 [''a.com'']) testRoot
        (PublicKey testKey) testKey = Inr [8]
   \<and> SerialNumber (leafTemplate testLib 0 [''a.com'']) = 1658
   \<and> SerialNumber (leafTemplate testLib 0 [''b.org'']) = 1658"
proof -
  have run: "NewCert testLib testCA [''a.com''] world0
      = (Inr ([2, 8], [1, 7]), world0\<lparr>clock := 2, issued := [[''a.com'']]\<rparr>)"
    by (simp add: NewCert_def testLib_simps testEncode_def world0_def Let_def)
  have run2: "fst (NewCert testLib testCA [''b.org''] world0) = Inr ([2, 8], [1, 7])"
    by (simp add: NewCert_def testLib_simps testEncode_def world0_def Let_def)
  show ?thesis
    using NewCert_constant_serial [of testLib 0 "[''a.com'']" testCA world0
        "[2, 8]" "[1, 7]" "world0\<lparr>clock := 2, issued := [[''a.com'']]\<rparr>" 0 "[''b.org'']"]
      NewCert_constant_serial [of testLib 0 "[''b.org'']"] run run2
    by (simp add: testLib_simps)
qed

section \<open>The terminating proxy\<close>

lemma servePrefixes_route:
  "servePrefixes ps hp req =
     (if \<exists>pre \<in> set ps. prefix pre (Path (URL req))
      then handler_ServeHTTP (hp_next hp) req
      else handler_ServeHTTP (hp_target hp) req)"
  by (induction ps) (auto simp: HasPrefix_iff_prefix)

lemma StartServer_Inr:
  assumes "StartServer L hp0 w = (Inr addr, hp, w')"
  obtains port targetURL nextURL where
    "net_Listen L w = Inr port"
    "url_Parse L (''http://'' @ hp_targetHost hp0) = Inr targetURL"
    "url_Parse L (''https://'' @ hp_nextHost hp0) = Inr nextURL"
    "addr = ''localhost:'' @ decimal port"
    "hp = hp0\<lparr>hp_target := Some (ReverseProxy
                 (makeDirector (NewSingleHostReverseProxy L targetURL) (URLHost nextURL))),
               hp_next := Some (ReverseProxy
                 (makeDirector (NewSingleHostReverseProxy L nextURL) (URLHost nextURL)))\<rparr>"
    "w' = w\<lparr>listeners := listeners w @ [port],
              serving := serving w @ [(addr, hp_targetHost hp0, hp_nextHost hp0)]\<rparr>"
proof (cases "net_Listen L w")
  case (Inl e)
  with assms show ?thesis by (simp add: StartServer_def)
next
  case port: (Inr port)
  show ?thesis
  proof (cases "url_Parse L (''http://'' @ hp_targetHost hp0)")
    case (Inl e)
    with assms port show ?thesis by (simp add: StartServer_def Let_def)
  next
    case t: (Inr targetURL)
    show ?thesis
    proof (cases "url_Parse L (''https://'' @ hp_nextHost hp0)")
      case (Inl e)
      with assms port t show ?thesis by (simp add: StartServer_def Let_def)
    next
      case n: (Inr nextURL)
      from assms port t n show ?thesis
        by (intro that [of port targetURL nextURL]) (auto simp: StartServer_def Let_def)
    qed
  qed
qed

text \<open>
  C6: the terminating proxy serves a request through its \<open>next\<close> handler when some
  configured prefix is a prefix of the request path, as lists of bytes, and through its
  \<open>target\<close> handler when none is. Once \<open>StartServer\<close> has succeeded both handlers are
  set, and the request goes out through the director of the chosen one.
\<close>

theorem httpsproxy_routes_by_prefix:
  "httpsproxy_ServeHTTP hp req =
     (if \<exists>pre \<in> set (hp_prefixes hp). prefix pre (Path (URL req))
      then handler_ServeHTTP (hp_next hp) req
      else handler_ServeHTTP (hp_target hp) req)
   \<and> (StartServer L hp0 w = (Inr addr, hp, w') \<longrightarrow>
        (\<exists>nextDirector targetDirector.
            hp_next hp = Some (ReverseProxy nextDirector)
          \<and> hp_target hp = Some (ReverseProxy targetDirector)
          \<and> hp_prefixes hp = hp_prefixes hp0
          \<and> httpsproxy_ServeHTTP hp req =
              (if \<exists>pre \<in> set (hp_prefixes hp0). prefix pre (Path (URL req))
               then Returned (nextDirector req) else Returned (targetDirector req))))"
proof -
  have route: "httpsproxy_ServeHTTP hp req =
     (if \<exists>pre \<in> set (hp_prefixes hp). prefix pre (Path (URL req))
      then handler_ServeHTTP (hp_next hp) req
      else handler_ServeHTTP (hp_target hp) req)" for hp
    by (simp only: httpsproxy_ServeHTTP_def servePrefixes_route)
  have started: "\<exists>nextDirector targetDirector.
            hp_next hp = Some (ReverseProxy nextDirector)
          \<and> hp_target hp = Some (ReverseProxy targetDirector)
          \<and> hp_prefixes hp = hp_prefixes hp0
          \<and> httpsproxy_ServeHTTP hp req =
              (if \<exists>pre \<in> set (hp_prefixes hp0). prefix pre (Path (URL req))
               then Returned (nextDirector req) else Returned (targetDirector req))"
    if st: "StartServer L hp0 w = (Inr addr, hp, w')"
  proof -
    obtain port targetURL nextURL where
      "net_Listen L w = Inr port"
      "url_Parse L (''http://'' @ hp_targetHost hp0) = Inr targetURL"
      "url_Parse L (''https://'' @ hp_nextHost hp0) = Inr nextURL"
      "addr = ''localhost:'' @ decimal port"
      "hp = hp0\<lparr>hp_target := Some (ReverseProxy
                 (makeDirector (NewSingleHostReverseProxy L targetURL) (URLHost nextURL))),
               hp_next := Some (ReverseProxy
                 (makeDirector (NewSingleHostReverseProxy L nextURL) (URLHost nextURL)))\<rparr>"
      "w' = w\<lparr>listeners := listeners w @ [port],
              serving := serving w @ [(addr, hp_targetHost hp0, hp_nextHost hp0)]\<rparr>"
      by (rule StartServer_Inr [OF st])
    note h = this(5)
    show ?thesis
      by (intro exI [of _ "makeDirector (NewSingleHostReverseProxy L nextURL) (URLHost nextURL)"]
            exI [of _ "makeDirector (NewSingleHostReverseProxy L targetURL) (URLHost nextURL)"])
         (simp add: route h)
  qed
  show ?thesis
    using route started by blast
qed

text \<open>
  C7, as stated, fails: the directors set \<open>Host\<close> to \<open>nextURL.Host\<close>, the host of the
  URL parsed from \<open>https://\<close> followed by \<open>nextHost\<close>, and that is not always
  \<open>nextHost\<close>. A proxy made by \<open>New\<close> with the pass-through host \<open>a.com:443/base\<close>
  sends every request out with the \<open>Host\<close> \<open>a.com:443\<close>.
\<close>

theorem StartServer_Host_differs_from_nextHost:
  "httpsproxy_New \<lparr>Certificate = [2, 8], PrivateKey = [1, 7]\<rparr> ''localhost:7777''
       ''a.com:443/base'' [''/api''] = Inr basedHP0
   \<and> StartServer testLib basedHP0 world0 =
       (Inr ''localhost:40000'', basedHP,
        world0\<lparr>listeners := [40000],
               serving := [(''localhost:40000'', ''localhost:7777'', ''a.com:443/base'')]\<rparr>)
   \<and> hp_nextHost basedHP = ''a.com:443/base''
   \<and> url_Parse testLib (''https://'' @ hp_nextHost basedHP0)
       = Inr \<lparr>Scheme = ''https'', URLHost = ''a.com:443'', Path = ''/base'', RawQuery = []\<rparr>
   \<and> (\<exists>out. httpsproxy_ServeHTTP basedHP (testGet ''/index.html'') = Returned out
          \<and> Host out = ''a.com:443'' \<and> Host out \<noteq> hp_nextHost basedHP)
   \<and> (\<exists>out. httpsproxy_ServeHTTP basedHP (testGet ''/api/users'') = Returned out
          \<and> Host out = ''a.com:443'' \<and> Host out \<noteq> hp_nextHost basedHP)"
proof -
  have d: "decimal 40000 = ''40000''"
    by (simp add: decimal.simps digit_def)
  have n: "httpsproxy_New \<lparr>Certificate = [2, 8], PrivateKey = [1, 7]\<rparr> ''localhost:7777''
       ''a.com:443/base'' [''/api''] = Inr basedHP0"
    by (simp add: httpsproxy_New_def basedHP0_def testHP0_def)
  have st: "StartServer testLib basedHP0 world0 =
     (Inr ''localhost:40000'',
      basedHP0\<lparr>hp_target := Some (ReverseProxy
                  (makeDirector (NewSingleHostReverseProxy testLib
                     \<lparr>Scheme = ''http'', URLHost = ''localhost:7777'', Path = [], RawQuery = []\<rparr>)
                     ''a.com:443'')),
               hp_next := Some (ReverseProxy
                  (makeDirector (NewSingleHostReverseProxy testLib
                     \<lparr>Scheme = ''https'', URLHost = ''a.com:443'', Path = ''/base'', RawQuery = []\<rparr>)
                     ''a.com:443''))\<rparr>,
      world0\<lparr>listeners := [40000],
             serving := [(''localhost:40000'', ''localhost:7777'', ''a.com:443/base'')]\<rparr>)"
    by (simp add: StartServer_def testLib_simps testParse_def HasPrefix_def basedHP0_def
        testHP0_def world0_def Let_def d)
  have hp: "basedHP = basedHP0\<lparr>hp_target := Some (ReverseProxy
                  (makeDirector (NewSingleHostReverseProxy testLib
                     \<lparr>Scheme = ''http'', URLHost = ''localhost:7777'', Path = [], RawQuery = []\<rparr>)
                     ''a.com:443'')),
               hp_next := Some (ReverseProxy
                  (makeDirector (NewSingleHostReverseProxy testLib
                     \<lparr>Scheme = ''https'', URLHost = ''a.com:443'', Path = ''/base'', RawQuery = []\<rparr>)
                     ''a.com:443''))\<rparr>"
    by (simp add: basedHP_def st)
  have st': "StartServer testLib basedHP0 world0 =
       (Inr ''localhost:40000'', basedHP,
        world0\<lparr>listeners := [40000],
               serving := [(''localhost:40000'', ''localhost:7777'', ''a.com:443/base'')]\<rparr>)"
    by (simp add: basedHP_def st)
  have nh: "hp_nextHost basedHP = ''a.com:443/base''"
    by (simp add: hp basedHP0_def)
  have u: "url_Parse testLib (''https://'' @ hp_nextHost basedHP0)
       = Inr \<lparr>Scheme = ''https'', URLHost = ''a.com:443'', Path = ''/base'', RawQuery = []\<rparr>"
    by (simp add: testLib_simps testParse_def HasPrefix_def basedHP0_def)
  have out: "\<exists>out. httpsproxy_ServeHTTP basedHP (testGet path) = Returned out
          \<and> Host out = ''a.com:443'' \<and> Host out \<noteq> hp_nextHost basedHP" for path
    by (simp add: nh) (simp add: httpsproxy_ServeHTTP_def servePrefixes_route hp makeDirector_def)
  show ?thesis
    using n st' nh u out by blast
qed

text \<open>
  C7, amended: after \<open>StartServer\<close> the directors of both reverse proxies first run the
  library's director for their backend and then set \<open>Host\<close> to the host of the URL
  parsed from \<open>https://\<close> followed by \<open>nextHost\<close>; every request the proxy serves goes
  out with that \<open>Host\<close>.
\<close>

theorem StartServer_directors_set_Host:
  assumes "StartServer L hp0 w = (Inr addr, hp, w')"
  shows "\<exists>targetURL nextURL.
           url_Parse L (''http://'' @ hp_targetHost hp0) = Inr targetURL
         \<and> url_Parse L (''https://'' @ hp_nextHost hp0) = Inr nextURL
         \<and> hp_target hp = Some (ReverseProxy
               (\<lambda>r. (default_director L targetURL r)\<lparr>Host := URLHost nextURL\<rparr>))
         \<and> hp_next hp = Some (ReverseProxy
               (\<lambda>r. (default_director L nextURL r)\<lparr>Host := URLHost nextURL\<rparr>))
         \<and> (\<exists>out. httpsproxy_ServeHTTP hp req = Returned out \<and> Host out = URLHost nextURL)"
proof -
  obtain port targetURL nextURL where
      "net_Listen L w = Inr port"
      "url_Parse L (''http://'' @ hp_targetHost hp0) = Inr targetURL"
      "url_Parse L (''https://'' @ hp_nextHost hp0) = Inr nextURL"
      "addr = ''localhost:'' @ decimal port"
      "hp = hp0\<lparr>hp_target := Some (ReverseProxy
                 (makeDirector (NewSingleHostReverseProxy L targetURL) (URLHost nextURL))),
               hp_next := Some (ReverseProxy
                 (makeDirector (NewSingleHostReverseProxy L nextURL) (URLHost nextURL)))\<rparr>"
      "w' = w\<lparr>listeners := listeners w @ [port],
              serving := serving w @ [(addr, hp_targetHost hp0, hp_nextHost hp0)]\<rparr>"
    by (rule StartServer_Inr [OF assms])
  note t = this(2) and n = this(3) and h = this(5)
  have d: "makeDirector (NewSingleHostReverseProxy L u) host
      = (\<lambda>r. (default_director L u r)\<lparr>Host := host\<rparr>)" for u host
    by (rule ext) (simp add: makeDirector_def NewSingleHostReverseProxy_def)
  have s: "\<exists>out. httpsproxy_ServeHTTP hp req = Returned out \<and> Host out = URLHost nextURL"
    by (simp add: httpsproxy_ServeHTTP_def servePrefixes_route h d)
  show ?thesis
    using t n s by (intro exI [of _ targetURL] exI [of _ nextURL]) (simp add: h d)
qed


lemma testHP_started:
  "StartServer testLib testHP0 world0 =
     (Inr ''localhost:40000'',
      testHP0\<lparr>hp_target := Some (ReverseProxy
                  (makeDirector (NewSingleHostReverseProxy testLib
                     \<lparr>Scheme = ''http'', URLHost = ''localhost:7777'', Path = [], RawQuery = []\<rparr>)
                     ''a.com:443'')),
               hp_next := Some (ReverseProxy
                  (makeDirector (NewSingleHostReverseProxy testLib
                     \<lparr>Scheme = ''https'', URLHost = ''a.com:443'', Path = [], RawQuery = []\<rparr>)
                     ''a.com:443''))\<rparr>,
      world0\<lparr>listeners := [40000],
             serving := [(''localhost:40000'', ''localhost:7777'', ''a.com:443'')]\<rparr>)"
proof -
  have d: "decimal 40000 = ''40000''"
    by (simp add: decimal.simps digit_def)
  show ?thesis
    by (simp add: StartServer_def testLib_simps testParse_def HasPrefix_def testHP0_def
        world0_def Let_def d)
qed

lemma testHP_eq:
  "testHP = testHP0\<lparr>hp_target := Some (ReverseProxy
                  (makeDirector (NewSingleHostReverseProxy testLib
                     \<lparr>Scheme = ''http'', URLHost = ''localhost:7777'', Path = [], RawQuery = []\<rparr>)
                     ''a.com:443'')),
               hp_next := Some (ReverseProxy
                  (makeDirector (NewSingleHostReverseProxy testLib
                     \<lparr>Scheme = ''https'', URLHost = ''a.com:443'', Path = [], RawQuery = []\<rparr>)
                     ''a.com:443''))\<rparr>"
  by (simp add: testHP_def testHP_started)

theorem httpsproxy_routes_by_prefix_witness:
  "fst (StartServer testLib testHP0 world0) = Inr ''localhost:40000''
   \<and> httpsproxy_ServeHTTP testHP (testGet ''/api/users'') =
       Returned \<lparr>Method = ''GET'', Host = ''a.com:443'',
         URL = \<lparr>Scheme = ''https'', URLHost = ''a.com:443'', Path = ''/api/users'', RawQuery = []\<rparr>\<rparr>
   \<and> httpsproxy_ServeHTTP testHP (testGet ''/index.html'') =
       Returned \<lparr>Method = ''GET'', Host = ''a.com:443'',
         URL = \<lparr>Scheme = ''http'', URLHost = ''localhost:7777'', Path = ''/index.html'', RawQuery = []\<rparr>\<rparr>"
proof -
  let ?w = "world0\<lparr>listeners := [40000],
              serving := [(''localhost:40000'', ''localhost:7777'', ''a.com:443'')]\<rparr>"
  have st: "StartServer testLib testHP0 world0 = (Inr ''localhost:40000'', testHP, ?w)"
    by (simp add: testHP_def testHP_started)
  have api: "\<exists>pre \<in> set (hp_prefixes testHP0). prefix pre (Path (URL (testGet ''/api/users'')))"
    by (simp add: testGet_def testHP0_def)
  have idx: "\<not> (\<exists>pre \<in> set (hp_prefixes testHP0). prefix pre (Path (URL (testGet ''/index.html''))))"
    by (simp add: testGet_def testHP0_def)
  have handlers:
    "hp_next testHP = Some (ReverseProxy (makeDirector (NewSingleHostReverseProxy testLib
        \<lparr>Scheme = ''https'', URLHost = ''a.com:443'', Path = [], RawQuery = []\<rparr>) ''a.com:443''))"
    "hp_target testHP = Some (ReverseProxy (makeDirector (NewSingleHostReverseProxy testLib
        \<lparr>Scheme = ''http'', URLHost = ''localhost:7777'', Path = [], RawQuery = []\<rparr>) ''a.com:443''))"
    by (simp_all add: testHP_eq)
  have r1: "httpsproxy_ServeHTTP testHP (testGet ''/api/users'') =
      Returned (makeDirector (NewSingleHostReverseProxy testLib
        \<lparr>Scheme = ''https'', URLHost = ''a.com:443'', Path = [], RawQuery = []\<rparr>) ''a.com:443''
        (testGet ''/api/users''))"
    using httpsproxy_routes_by_prefix [of testHP "testGet ''/api/users''" testLib testHP0 world0
        "''localhost:40000''" ?w] st api
    by (auto simp: handlers)
  have r2: "httpsproxy_ServeHTTP testHP (testGet ''/index.html'') =
      Returned (makeDirector (NewSingleHostReverseProxy testLib
        \<lparr>Scheme = ''http'', URLHost = ''localhost:7777'', Path = [], RawQuery = []\<rparr>) ''a.com:443''
        (testGet ''/index.html''))"
    using httpsproxy_routes_by_prefix [of testHP "testGet ''/index.html''" testLib testHP0 world0
        "''localhost:40000''" ?w] st idx
    by (auto simp: handlers)
  show ?thesis
    by (simp add: r1 r2 st)
       (simp add: makeDirector_def NewSingleHostReverseProxy_def testLib_simps
          testDirector_def testGet_def)
qed

theorem StartServer_directors_set_Host_witness:
  "fst (StartServer testLib testHP0 world0) = Inr ''localhost:40000''
   \<and> url_Parse testLib (''https://'' @ hp_nextHost testHP0)
       = Inr \<lparr>Scheme = ''https'', URLHost = ''a.com:443'', Path = [], RawQuery = []\<rparr>
   \<and> (\<exists>out. httpsproxy_ServeHTTP testHP (testGet ''/index.html'') = Returned out
          \<and> Host out = ''a.com:443'')
   \<and> (\<exists>out. httpsproxy_ServeHTTP testHP (testGet ''/api/users'') = Returned out
          \<and> Host out = ''a.com:443'')"
proof -
  have st: "StartServer testLib testHP0 world0 =
     (Inr ''localhost:40000'', testHP,
      world0\<lparr>listeners := [40000],
             serving := [(''localhost:40000'', ''localhost:7777'', ''a.com:443'')]\<rparr>)"
    by (simp add: testHP_def testHP_started)
  have n: "url_Parse testLib (''https://'' @ hp_nextHost testHP0)
       = Inr \<lparr>Scheme = ''https'', URLHost = ''a.com:443'', Path = [], RawQuery = []\<rparr>"
    by (simp add: testLib_simps testParse_def HasPrefix_def testHP0_def)
  show ?thesis
    using StartServer_directors_set_Host [OF st, of "testGet ''/index.html''"]
      StartServer_directors_set_Host [OF st, of "testGet ''/api/users''"] n
    by (auto simp: st)
qed

section \<open>The dispatcher\<close>

lemma testProxy_maps:
  "LocalMap testProxy = [''localhost:7777'' \<mapsto> ''a.com:443'']"
  "RemoteMap testProxy = [''a.com:443'' \<mapsto> ''localhost:7777'']"
  "PrefixMap testProxy = [''a.com:443'' \<mapsto> [''/api'']]"
  "ProxyMap testProxy = Map.empty"
  "FakeCA testProxy = testCA"
  by (simp_all add: testProxy_def New_def addHostPair_def addPrefixPair_def prefixesOf_def
      Split_def HasPrefix_def hostKey_def TrimPrefix_def Let_def)

text \<open>
  C5, as stated, fails twice. A request in origin form has a URL without a scheme; the
  redirect then keeps the empty scheme, since only \<open>http\<close> is replaced. And a request
  for \<open>/quitquitquit\<close> is taken as the shutdown signal before the method is looked at,
  so it gets no redirect even from a mapped host.
\<close>

theorem non_CONNECT_without_https:
  "LocalMap testProxy (hostKey ''127.0.0.1:7777'') = Some ''a.com:443''
   \<and> fst (ServeHTTP testLib testProxy (Hijacker None)
          \<lparr>Method = ''GET'', Host = ''127.0.0.1:7777'',
           URL = \<lparr>Scheme = [], URLHost = [], Path = ''/index.html'', RawQuery = []\<rparr>\<rparr> world0)
       = Redirect \<lparr>Scheme = [], URLHost = ''a.com:443'', Path = ''/index.html'', RawQuery = []\<rparr> 307
   \<and> fst (ServeHTTP testLib testProxy (Hijacker None)
          \<lparr>Method = ''GET'', Host = ''127.0.0.1:7777'',
           URL = \<lparr>Scheme = ''http'', URLHost = ''127.0.0.1:7777'', Path = ''/quitquitquit'',
                  RawQuery = []\<rparr>\<rparr> world0)
       = Quit"
  by (simp add: ServeHTTP_def redirectToHTTPS_def testProxy_maps hostKey_def TrimPrefix_def
      HasPrefix_def Let_def)

text \<open>
  C5, amended: a request that is not a CONNECT and not for \<open>/quitquitquit\<close> is answered,
  when the key of its host is in \<open>LocalMap\<close>, with a 307 redirect to its own URL with the
  host replaced by the mapped remote host (path and query unchanged) and the scheme
  \<open>http\<close> replaced by \<open>https\<close>, any other scheme kept; when the key is not in
  \<open>LocalMap\<close>, with the status 405. Neither changes the dispatcher.
\<close>

theorem non_CONNECT_dispatch:
  assumes "Method req \<noteq> ''CONNECT''" and "Path (URL req) \<noteq> ''/quitquitquit''"
  shows "(LocalMap p (hostKey (Host req)) = Some remoteHost \<longrightarrow>
            ServeHTTP L p rw req w =
              (Redirect ((URL req)\<lparr>URLHost := remoteHost,
                           Scheme := (if Scheme (URL req) = ''http'' then ''https''
                                      else Scheme (URL req))\<rparr>) 307, p, w))
       \<and> (LocalMap p (hostKey (Host req)) = None \<longrightarrow>
            (\<exists>msg. ServeHTTP L p rw req w = (HttpError msg 405, p, w)))"
  using assms by (simp add: ServeHTTP_def redirectToHTTPS_def Let_def)

theorem non_CONNECT_dispatch_witness:
  "Method \<lparr>Method = ''GET'', Host = ''127.0.0.1:7777'',
           URL = \<lparr>Scheme = ''http'', URLHost = ''127.0.0.1:7777'', Path = ''/index.html'',
                  RawQuery = ''v=1''\<rparr>\<rparr> \<noteq> ''CONNECT''
   \<and> LocalMap testProxy (hostKey ''127.0.0.1:7777'') = Some ''a.com:443''
   \<and> ServeHTTP testLib testProxy (Hijacker None)
          \<lparr>Method = ''GET'', Host = ''127.0.0.1:7777'',
           URL = \<lparr>Scheme = ''http'', URLHost = ''127.0.0.1:7777'', Path = ''/index.html'',
                  RawQuery = ''v=1''\<rparr>\<rparr> world0
       = (Redirect \<lparr>Scheme = ''https'', URLHost = ''a.com:443'', Path = ''/index.html'',
                    RawQuery = ''v=1''\<rparr> 307, testProxy, world0)
   \<and> LocalMap testProxy (hostKey ''localhost:9'') = None
   \<and> (\<exists>msg. ServeHTTP testLib testProxy (Hijacker None)
          \<lparr>Method = ''GET'', Host = ''localhost:9'',
           URL = \<lparr>Scheme = ''http'', URLHost = ''localhost:9'', Path = ''/index.html'',
                  RawQuery = []\<rparr>\<rparr> world0
       = (HttpError msg 405, testProxy, world0))"
proof -
  let ?r1 = "\<lparr>Method = ''GET'', Host = ''127.0.0.1:7777'',
           URL = \<lparr>Scheme = ''http'', URLHost = ''127.0.0.1:7777'', Path = ''/index.html'',
                  RawQuery = ''v=1''\<rparr>\<rparr>"
  let ?r2 = "\<lparr>Method = ''GET'', Host = ''localhost:9'',
           URL = \<lparr>Scheme = ''http'', URLHost = ''localhost:9'', Path = ''/index.html'',
                  RawQuery = []\<rparr>\<rparr>"
  have m1: "Method ?r1 \<noteq> ''CONNECT''" and q1: "Path (URL ?r1) \<noteq> ''/quitquitquit''"
    by simp_all
  have m2: "Method ?r2 \<noteq> ''CONNECT''" and q2: "Path (URL ?r2) \<noteq> ''/quitquitquit''"
    by simp_all
  have k1: "LocalMap testProxy (hostKey ''127.0.0.1:7777'') = Some ''a.com:443''"
    by (simp add: testProxy_maps hostKey_def TrimPrefix_def HasPrefix_def)
  have k2: "LocalMap testProxy (hostKey ''localhost:9'') = None"
    by (simp add: testProxy_maps hostKey_def TrimPrefix_def HasPrefix_def)
  show ?thesis
    using non_CONNECT_dispatch [OF m1 q1, of testProxy "''a.com:443''" testLib "Hijacker None" world0]
      non_CONNECT_dispatch [OF m2 q2, of testProxy "''a.com:443''" testLib "Hijacker None" world0]
      k1 k2
    by simp
qed

section \<open>CONNECT for a host without a mapping\<close>

text \<open>
  C8: for a CONNECT whose host is not in \<open>RemoteMap\<close> the resolution returns the empty
  address at once; no certificate is asked of the authority, no server is started and
  \<open>ProxyMap\<close> is unchanged. \<open>handleConnect\<close> then dials the requested host itself, and
  tunnels to it when the dial and the hijack succeed.
\<close>

theorem unmapped_CONNECT_tunnels_directly:
  assumes "RemoteMap p (Host req) = None"
  shows "maybeStartHTTPSProxy L p req w = (Inr [], p, w)
       \<and> handleConnect L p rw req w =
           (case net_Dial L w (Host req) of
              Inl err \<Rightarrow> HttpError (errorText err) 503
            | Inr targetConn \<Rightarrow>
                (case rw of
                   PlainWriter \<Rightarrow> Fatal ''HTTP server doesn't support hijacking connection''
                 | Hijacker (Some err) \<Rightarrow> Fatal ''HTTP hijacking failed''
                 | Hijacker None \<Rightarrow> Tunnel (Host req)),
            p, w\<lparr>dials := dials w @ [Host req]\<rparr>)
       \<and> issued (snd (snd (handleConnect L p rw req w))) = issued w
       \<and> serving (snd (snd (handleConnect L p rw req w))) = serving w
       \<and> ProxyMap (fst (snd (handleConnect L p rw req w))) = ProxyMap p"
proof -
  have m: "maybeStartHTTPSProxy L p req w = (Inr [], p, w)"
    using assms by (simp add: maybeStartHTTPSProxy_def)
  have h: "handleConnect L p rw req w =
           (case net_Dial L w (Host req) of
              Inl err \<Rightarrow> HttpError (errorText err) 503
            | Inr targetConn \<Rightarrow>
                (case rw of
                   PlainWriter \<Rightarrow> Fatal ''HTTP server doesn't support hijacking connection''
                 | Hijacker (Some err) \<Rightarrow> Fatal ''HTTP hijacking failed''
                 | Hijacker None \<Rightarrow> Tunnel (Host req)),
            p, w\<lparr>dials := dials w @ [Host req]\<rparr>)"
    by (simp add: handleConnect_def m Let_def split: sum.splits ResponseWriter.splits option.splits)
  show ?thesis
    by (simp add: m h)
qed

theorem unmapped_CONNECT_tunnels_directly_witness:
  "RemoteMap testProxy ''b.org:443'' = None
   \<and> handleConnect testLib testProxy (Hijacker None)
        \<lparr>Method = ''CONNECT'', Host = ''b.org:443'',
         URL = \<lparr>Scheme = [], URLHost = ''b.org:443'', Path = [], RawQuery = []\<rparr>\<rparr> world0
       = (Tunnel ''b.org:443'', testProxy, world0\<lparr>dials := [''b.org:443'']\<rparr>)"
proof -
  let ?req = "\<lparr>Method = ''CONNECT'', Host = ''b.org:443'',
         URL = \<lparr>Scheme = [], URLHost = ''b.org:443'', Path = [], RawQuery = []\<rparr>\<rparr>"
  have u: "RemoteMap testProxy (Host ?req) = None"
    by (simp add: testProxy_maps)
  show ?thesis
    using unmapped_CONNECT_tunnels_directly [OF u, of testLib world0 "Hijacker None"] u
    by (simp add: testLib_simps world0_def)
qed

section \<open>Failure while the proxy of a domain is created\<close>

lemma createHTTPSProxy_Inl:
  assumes "createHTTPSProxy L p req localHost w = (Inl err, p', w')"
  shows "p' = p"
  using assms
  by (auto simp: createHTTPSProxy_def Let_def httpsproxy_New_def
      split: prod.splits sum.splits)

text \<open>
  C3: let the host of a CONNECT be mapped and its proxy not yet be in \<open>ProxyMap\<close>. If
  issuing the leaf fails, or building the TLS key pair from it fails, or starting the
  server of the new proxy fails, with the error \<open>err\<close>, then \<open>handleConnect\<close> answers 503
  with the text of \<open>err\<close> and returns the dispatcher unchanged, so the next request for
  the host runs the creation again. (Constructing the proxy, \<open>httpsproxy.New\<close>, has no
  failing path.)
\<close>

theorem failed_creation_is_503:
  assumes mapped: "RemoteMap p (Host req) = Some localHost"
    and absent: "ProxyMap p localHost = None"
    and fails:
      "fst (NewCert L (FakeCA p) [url_Hostname L (URL req)] w) = Inl err
       \<or> (\<exists>leafPEM leafKeyPEM w1.
             NewCert L (FakeCA p) [url_Hostname L (URL req)] w = (Inr (leafPEM, leafKeyPEM), w1)
           \<and> (tls_X509KeyPair L leafPEM leafKeyPEM = Inl err
              \<or> (\<exists>serverCert hp.
                    tls_X509KeyPair L leafPEM leafKeyPEM = Inr serverCert
                  \<and> httpsproxy_New serverCert localHost (Host req) (prefixesOf p (Host req)) = Inr hp
                  \<and> fst (StartServer L hp w1) = Inl err)))"
  shows "\<exists>w'. handleConnect L p rw req w = (HttpError (errorText err) 503, p, w')
            \<and> maybeStartHTTPSProxy L p req w' = createHTTPSProxy L p req localHost w'"
proof -
  have c: "fst (createHTTPSProxy L p req localHost w) = Inl err"
    using fails
    by (auto simp: createHTTPSProxy_def Let_def split: prod.splits sum.splits)
  then obtain p' w' where r: "createHTTPSProxy L p req localHost w = (Inl err, p', w')"
    by (cases "createHTTPSProxy L p req localHost w") auto
  have p: "p' = p"
    using r by (rule createHTTPSProxy_Inl)
  have m: "maybeStartHTTPSProxy L p req w = (Inl err, p, w')"
    using mapped absent r p by (simp add: maybeStartHTTPSProxy_def)
  have h: "handleConnect L p rw req w = (HttpError (errorText err) 503, p, w')"
    by (simp add: handleConnect_def m)
  have again: "maybeStartHTTPSProxy L p req w' = createHTTPSProxy L p req localHost w'"
    using mapped absent by (simp add: maybeStartHTTPSProxy_def)
  show ?thesis
    using h again by blast
qed

theorem failed_creation_is_503_witness:
  "RemoteMap testProxy (Host (testConnect ''a.com:443'')) = Some ''localhost:7777''
   \<and> ProxyMap testProxy ''localhost:7777'' = None
   \<and> fst (NewCert testLibNoListen testCA [''a.com''] world0) = Inr ([2, 8], [1, 7])
   \<and> fst (StartServer testLibNoListen testHP0 (snd (NewCert testLibNoListen testCA [''a.com''] world0)))
       = Inl (Error ''listen tcp :0: too many open files'')
   \<and> fst (handleConnect testLibNoListen testProxy (Hijacker None) (testConnect ''a.com:443'') world0)
       = HttpError ''listen tcp :0: too many open files'' 503
   \<and> fst (snd (handleConnect testLibNoListen testProxy (Hijacker None) (testConnect ''a.com:443'') world0))
       = testProxy
   \<and> fst (handleConnect testLib testProxy (Hijacker None) (testConnect ''a.com:443'')
          (snd (snd (handleConnect testLibNoListen testProxy (Hijacker None)
             (testConnect ''a.com:443'') world0))))
       = Tunnel ''localhost:40000''"
proof -
  let ?L = testLibNoListen
  let ?req = "testConnect ''a.com:443''"
  let ?w1 = "world0\<lparr>clock := 2, issued := [[''a.com'']]\<rparr>"
  let ?err = "Error ''listen tcp :0: too many open files''"
  have L: "pem_Encode ?L = testEncode" "rsa_GenerateKey ?L w bits = Inr testKey"
    "x509_CreateCertificate ?L t pa pub priv = Inr [8]"
    "x509_MarshalPKCS1PrivateKey ?L key = [7]"
    "tls_X509KeyPair ?L c k = Inr \<lparr>Certificate = c, PrivateKey = k\<rparr>"
    "net_Listen ?L w = Inl ?err"
    for w bits t pa pub priv key c k
    by (simp_all add: testLibNoListen_def testLib_def)
  have mapped: "RemoteMap testProxy (Host ?req) = Some ''localhost:7777''"
    by (simp add: testProxy_maps testConnect_def)
  have absent: "ProxyMap testProxy ''localhost:7777'' = None"
    by (simp add: testProxy_maps)
  have host: "url_Hostname ?L (URL ?req) = ''a.com''"
    by (simp add: testLibNoListen_def testLib_def testConnect_def)
  have cert: "NewCert ?L testCA [''a.com''] world0 = (Inr ([2, 8], [1, 7]), ?w1)"
    by (simp add: NewCert_def L testEncode_def world0_def Let_def)
  have new: "httpsproxy_New \<lparr>Certificate = [2, 8], PrivateKey = [1, 7]\<rparr> ''localhost:7777''
      (Host ?req) (prefixesOf testProxy (Host ?req)) = Inr testHP0"
    by (simp add: httpsproxy_New_def testHP0_def prefixesOf_def testProxy_maps testConnect_def)
  have start: "fst (StartServer ?L testHP0 ?w1) = Inl ?err"
    by (simp add: StartServer_def L)
  have fails:
      "fst (NewCert ?L (FakeCA testProxy) [url_Hostname ?L (URL ?req)] world0) = Inl ?err
       \<or> (\<exists>leafPEM leafKeyPEM w1.
             NewCert ?L (FakeCA testProxy) [url_Hostname ?L (URL ?req)] world0
               = (Inr (leafPEM, leafKeyPEM), w1)
           \<and> (tls_X509KeyPair ?L leafPEM leafKeyPEM = Inl ?err
              \<or> (\<exists>serverCert hp.
                    tls_X509KeyPair ?L leafPEM leafKeyPEM = Inr serverCert
                  \<and> httpsproxy_New serverCert ''localhost:7777'' (Host ?req)
                       (prefixesOf testProxy (Host ?req)) = Inr hp
                  \<and> fst (StartServer ?L hp w1) = Inl ?err)))"
    using cert new start by (simp add: host testProxy_maps L)
  have start': "StartServer ?L testHP0 ?w1 = (Inl ?err, testHP0, ?w1)"
    by (simp add: StartServer_def L)
  have create: "createHTTPSProxy ?L testProxy ?req ''localhost:7777'' world0
      = (Inl ?err, testProxy, ?w1)"
    by (simp add: createHTTPSProxy_def host testProxy_maps cert L new start')
  have w': "snd (snd (handleConnect ?L testProxy (Hijacker None) ?req world0)) = ?w1"
    by (simp add: handleConnect_def maybeStartHTTPSProxy_def mapped absent create)
  have d: "decimal 40000 = ''40000''"
    by (simp add: decimal.simps digit_def)
  have host2: "url_Hostname testLib (URL ?req) = ''a.com''"
    by (simp add: testLib_def testConnect_def)
  have cert2: "NewCert testLib testCA [''a.com''] ?w1
      = (Inr ([2, 8], [1, 7]), ?w1\<lparr>clock := 4, issued := [[''a.com''], [''a.com'']]\<rparr>)"
    by (simp add: NewCert_def testLib_simps testEncode_def world0_def Let_def)
  let ?w2 = "?w1\<lparr>clock := 4, issued := [[''a.com''], [''a.com'']]\<rparr>"
  have start2: "\<exists>hp w3. StartServer testLib testHP0 ?w2 = (Inr ''localhost:40000'', hp, w3)"
    by (simp add: StartServer_def testLib_simps testParse_def HasPrefix_def testHP0_def Let_def
        world0_def d)
  have create2: "fst (createHTTPSProxy testLib testProxy ?req ''localhost:7777'' ?w1)
      = Inr ''localhost:40000''"
    using start2
    by (auto simp: createHTTPSProxy_def host2 testProxy_maps cert2 testLib_simps new)
  obtain p2 w3 where c2: "createHTTPSProxy testLib testProxy ?req ''localhost:7777'' ?w1
      = (Inr ''localhost:40000'', p2, w3)"
    using create2 by (cases "createHTTPSProxy testLib testProxy ?req ''localhost:7777'' ?w1") auto
  have retry: "fst (handleConnect testLib testProxy (Hijacker None) ?req ?w1)
      = Tunnel ''localhost:40000''"
    by (simp add: handleConnect_def maybeStartHTTPSProxy_def mapped absent c2 testLib_simps Let_def)
  show ?thesis
    using failed_creation_is_503 [OF mapped absent fails, of "Hijacker None"] mapped absent
      cert start retry
    by (auto simp: errorText_def w')
qed

section \<open>Concurrent requests\<close>

lemma step_cases [consumes 1, case_names Unmapped Mapped RLock Read RUnlockHit RUnlockMiss
    Lock RecheckHit RecheckMiss NewCertErr NewCertOk KeyPairErr KeyPairOk StartErr StartOk
    Insert Unlock]:
  assumes "step L reqs t s = Some s'"
  obtains
    "pcs s t = AtLookup" and "RemoteMap (proxy s) (Host (reqs t)) = None"
      and "s' = goto t (Done (Inr [])) s"
  | l where "pcs s t = AtLookup" and "RemoteMap (proxy s) (Host (reqs t)) = Some l"
      and "s' = goto t (AtRLock l) s"
  | l where "pcs s t = AtRLock l" and "\<not> writer s"
      and "s' = goto t (AtRead l) (s\<lparr>readers := readers s + 1\<rparr>)"
  | l where "pcs s t = AtRead l"
      and "s' = goto t (AtRUnlock l (ProxyMap (proxy s) l)) s"
  | l info where "pcs s t = AtRUnlock l (Some info)"
      and "s' = goto t (Done (Inr (proxyHost info))) (s\<lparr>readers := readers s - 1\<rparr>)"
  | l where "pcs s t = AtRUnlock l None"
      and "s' = goto t (AtLock l) (s\<lparr>readers := readers s - 1\<rparr>)"
  | l where "pcs s t = AtLock l" and "\<not> writer s" and "readers s = 0"
      and "s' = goto t (AtRecheck l) (s\<lparr>writer := True\<rparr>)"
  | l info where "pcs s t = AtRecheck l" and "ProxyMap (proxy s) l = Some info"
      and "s' = goto t (AtUnlock (Inr (proxyHost info))) s"
  | l where "pcs s t = AtRecheck l" and "ProxyMap (proxy s) l = None"
      and "s' = goto t (AtNewCert l) s"
  | l err w1 where "pcs s t = AtNewCert l"
      and "NewCert L (FakeCA (proxy s)) [url_Hostname L (URL (reqs t))] (env s) = (Inl err, w1)"
      and "s' = goto t (AtUnlock (Inl err)) (s\<lparr>env := w1\<rparr>)"
  | l c k w1 where "pcs s t = AtNewCert l"
      and "NewCert L (FakeCA (proxy s)) [url_Hostname L (URL (reqs t))] (env s) = (Inr (c, k), w1)"
      and "s' = goto t (AtKeyPair l c k) (s\<lparr>env := w1\<rparr>)"
  | l c k err where "pcs s t = AtKeyPair l c k"
      and "s' = goto t (AtUnlock (Inl err)) s"
  | l c k hp where "pcs s t = AtKeyPair l c k" and "hp_targetHost hp = l"
      and "s' = goto t (AtStart l c k hp) s"
  | l c k hp err hp' w2 where "pcs s t = AtStart l c k hp"
      and "StartServer L hp (env s) = (Inl err, hp', w2)"
      and "s' = goto t (AtUnlock (Inl err)) (s\<lparr>env := w2\<rparr>)"
  | l c k hp addr hp' w2 where "pcs s t = AtStart l c k hp"
      and "StartServer L hp (env s) = (Inr addr, hp', w2)"
      and "s' = goto t (AtInsert l c k hp' addr) (s\<lparr>env := w2\<rparr>)"
  | l c k hp addr where "pcs s t = AtInsert l c k hp addr"
      and "s' = goto t (AtUnlock (Inr addr))
             (s\<lparr>proxy := (proxy s)\<lparr>ProxyMap := (ProxyMap (proxy s))(l \<mapsto>
                              \<lparr>proxyHost = addr, certPEM = c, privKeyPEM = k, httpsProxy = hp\<rparr>)\<rparr>,
                inserts := inserts s @ [l]\<rparr>)"
  | r where "pcs s t = AtUnlock r"
      and "s' = goto t (Done r) (s\<lparr>writer := False\<rparr>)"
proof (cases "pcs s t")
  case AtLookup
  with assms that(1,2) show ?thesis
    by (cases "RemoteMap (proxy s) (Host (reqs t))") (simp_all add: step_def Let_def)
next
  case (AtRLock l)
  with assms that(3) show ?thesis
    by (simp add: step_def Let_def split: if_splits)
next
  case (AtRead l)
  with assms that(4) show ?thesis
    by (simp add: step_def Let_def)
next
  case (AtRUnlock l found)
  with assms that(5,6) show ?thesis
    by (cases found) (simp_all add: step_def Let_def)
next
  case (AtLock l)
  with assms that(7) show ?thesis
    by (simp add: step_def Let_def split: if_splits)
next
  case (AtRecheck l)
  with assms that(8,9) show ?thesis
    by (cases "ProxyMap (proxy s) l") (simp_all add: step_def Let_def)
next
  case (AtNewCert l)
  with assms that(10,11) show ?thesis
    by (simp add: step_def Let_def split: prod.splits sum.splits)
next
  case (AtKeyPair l c k)
  show ?thesis
  proof (cases "tls_X509KeyPair L c k")
    case (Inl err)
    with assms AtKeyPair show ?thesis
      by (intro that(12) [of l c k err]) (simp_all add: step_def Let_def)
  next
    case (Inr serverCert)
    obtain hp where
      hp: "httpsproxy_New serverCert l (Host (reqs t)) (prefixesOf (proxy s) (Host (reqs t)))
            = Inr hp"
      by (simp add: httpsproxy_New_def)
    then have "hp_targetHost hp = l"
      by (auto simp: httpsproxy_New_def)
    with assms AtKeyPair Inr hp show ?thesis
      by (intro that(13) [of l c k hp]) (simp_all add: step_def Let_def)
  qed
next
  case (AtStart l c k hp)
  with assms that(14,15) show ?thesis
    by (simp add: step_def Let_def split: prod.splits sum.splits)
next
  case (AtInsert l c k hp addr)
  with assms that(16) show ?thesis
    by (simp add: step_def Let_def)
next
  case (AtUnlock r)
  with assms that(17) show ?thesis
    by (simp add: step_def Let_def)
next
  case (Done r)
  with assms show ?thesis
    by (simp add: step_def Let_def)
qed


lemma NewCert_serving:
  "NewCert L ca names w = (r, w') \<Longrightarrow> serving w' = serving w"
  by (auto simp: NewCert_def Let_def split: sum.splits prod.splits option.splits)

lemma StartServer_serving_Inl:
  "StartServer L hp w = (Inl err, hp', w') \<Longrightarrow> serving w' = serving w"
  by (auto simp: StartServer_def Let_def split: sum.splits)

lemma StartServer_serving_Inr:
  assumes "StartServer L hp w = (Inr addr, hp', w')"
  shows "serving w' = serving w @ [(addr, hp_targetHost hp, hp_nextHost hp)]"
proof -
  obtain port targetURL nextURL where
    "net_Listen L w = Inr port"
    "url_Parse L (''http://'' @ hp_targetHost hp) = Inr targetURL"
    "url_Parse L (''https://'' @ hp_nextHost hp) = Inr nextURL"
    "addr = ''localhost:'' @ decimal port"
    "hp' = hp\<lparr>hp_target := Some (ReverseProxy
                 (makeDirector (NewSingleHostReverseProxy L targetURL) (URLHost nextURL))),
               hp_next := Some (ReverseProxy
                 (makeDirector (NewSingleHostReverseProxy L nextURL) (URLHost nextURL)))\<rparr>"
    "w' = w\<lparr>listeners := listeners w @ [port],
              serving := serving w @ [(addr, hp_targetHost hp, hp_nextHost hp)]\<rparr>"
    by (rule StartServer_Inr [OF assms])
  then show ?thesis by simp
qed

lemma started_eq: "serving w' = serving w \<Longrightarrow> started w' l = started w l"
  by (simp add: started_def)

lemma started_append:
  "serving w' = serving w @ [(addr, targetHost, nextHost)]
   \<Longrightarrow> started w' l = started w l + (if targetHost = l then 1 else 0)"
  by (simp add: started_def)

lemma sameTables_RemoteMap: "sameTables p0 s \<Longrightarrow> RemoteMap (proxy s) = RemoteMap p0"
  by (simp add: sameTables_def)

lemma sameTables_step:
  assumes "sameTables p0 s" and "step L reqs t s = Some s'"
  shows "sameTables p0 s'"
  using assms(2,1) by (cases rule: step_cases) (auto simp: sameTables_def goto_def)

lemma exclusive_update:
  assumes e: "exclusive s"
    and pcs: "pcs s' = (pcs s)(t := c)"
    and w: "writer s' = (if inWrite c then (if inWrite (pcs s t) then writer s else True)
                         else if inWrite (pcs s t) then False else writer s)"
    and enter: "inWrite c \<Longrightarrow> \<not> inWrite (pcs s t) \<Longrightarrow> \<not> writer s"
  shows "exclusive s'"
proof -
  have held: "\<And>u. inWrite (pcs s u) \<Longrightarrow> writer s"
    and one: "\<And>u u'. inWrite (pcs s u) \<Longrightarrow> inWrite (pcs s u') \<Longrightarrow> u = u'"
    using e by (auto simp: exclusive_def)
  have held': "writer s'" if "inWrite (pcs s' u)" for u
  proof (cases "u = t")
    case True
    with that pcs have "inWrite c" by simp
    then show ?thesis using w held [of t] by (simp split: if_splits)
  next
    case False
    with that pcs have u: "inWrite (pcs s u)" by simp
    then have ws: "writer s" by (rule held)
    show ?thesis
    proof (cases "inWrite (pcs s t)")
      case True
      with u one have "u = t" by blast
      with False show ?thesis by simp
    next
      case False
      then show ?thesis using w ws enter by (auto split: if_splits)
    qed
  qed
  have one': "u = u'" if a: "inWrite (pcs s' u)" and b: "inWrite (pcs s' u')" for u u'
  proof -
    have other: "False" if "v \<noteq> t" and v: "inWrite (pcs s' v)" and c: "inWrite c"
      and nt: "\<not> inWrite (pcs s t)" for v
    proof -
      from that pcs have "inWrite (pcs s v)" by simp
      then have "writer s" by (rule held)
      with enter [OF c nt] show False by simp
    qed
    show ?thesis
    proof (cases "u = t"; cases "u' = t")
      assume "u = t" "u' = t" then show ?thesis by simp
    next
      assume ut: "u = t" and u't: "u' \<noteq> t"
      from b u't pcs have iu': "inWrite (pcs s u')" by simp
      from a ut pcs have c: "inWrite c" by simp
      show ?thesis
      proof (cases "inWrite (pcs s t)")
        case True with iu' one have "u' = t" by blast
        with u't show ?thesis by simp
      next
        case False with other [OF u't b c] show ?thesis by simp
      qed
    next
      assume ut: "u \<noteq> t" and u't: "u' = t"
      from a ut pcs have iu: "inWrite (pcs s u)" by simp
      from b u't pcs have c: "inWrite c" by simp
      show ?thesis
      proof (cases "inWrite (pcs s t)")
        case True with iu one have "u = t" by blast
        with ut show ?thesis by simp
      next
        case False with other [OF ut a c] show ?thesis by simp
      qed
    next
      assume "u \<noteq> t" "u' \<noteq> t"
      with a b pcs have "inWrite (pcs s u)" "inWrite (pcs s u')" by simp_all
      then show ?thesis by (rule one)
    qed
  qed
  show ?thesis
    unfolding exclusive_def using held' one' by blast
qed

lemma exclusive_goto:
  assumes "exclusive s" and "pcs s0 = pcs s"
    and "writer s0 = (if inWrite c then (if inWrite (pcs s t) then writer s else True)
                      else if inWrite (pcs s t) then False else writer s)"
    and "inWrite c \<Longrightarrow> \<not> inWrite (pcs s t) \<Longrightarrow> \<not> writer s"
  shows "exclusive (goto t c s0)"
  using assms(1) _ _ assms(4)
  by (rule exclusive_update [where t = t and c = c]) (simp_all add: goto_def assms(2,3))

lemma exclusive_step:
  assumes "exclusive s" and "step L reqs t s = Some s'"
  shows "exclusive s'"
  using assms(2)
  by (cases rule: step_cases) (auto intro!: exclusive_goto [OF assms(1)])


lemma localsMapped_step:
  assumes "localsMapped p0 reqs s" and "sameTables p0 s" and "step L reqs t s = Some s'"
  shows "localsMapped p0 reqs s'"
  using assms(3,1,2)
  by (cases rule: step_cases) (auto simp: localsMapped_def sameTables_def goto_def)

lemma startsKey_step:
  assumes "startsKey s" and "step L reqs t s = Some s'"
  shows "startsKey s'"
  using assms(2,1)
  by (cases rule: step_cases) (auto simp: startsKey_def goto_def)

lemma creatingAbsent_step:
  assumes "creatingAbsent s" and "exclusive s" and "step L reqs t s = Some s'"
  shows "creatingAbsent s'"
proof -
  have mine: "\<And>l. creating (pcs s t) = Some l \<Longrightarrow> ProxyMap (proxy s) l = None"
    using assms(1) by (simp add: creatingAbsent_def)
  from assms(3,1) mine show ?thesis
  proof (cases rule: step_cases)
    case (Insert l c k hp addr)
    have "creating (pcs s u) = None" if "u \<noteq> t" for u
    proof -
      have "inWrite (pcs s t)" using Insert by simp
      with assms(2) that have "\<not> inWrite (pcs s u)" by (auto simp: exclusive_def)
      then show ?thesis by (cases "pcs s u") simp_all
    qed
    then show ?thesis
      using Insert by (auto simp: creatingAbsent_def goto_def)
  qed (auto simp: creatingAbsent_def goto_def)
qed


lemma foundInTable_step:
  assumes "foundInTable s" and "creatingAbsent s" and "step L reqs t s = Some s'"
  shows "foundInTable s'"
proof -
  have mine: "\<And>l. creating (pcs s t) = Some l \<Longrightarrow> ProxyMap (proxy s) l = None"
    using assms(2) by (simp add: creatingAbsent_def)
  from assms(3,1) mine show ?thesis
    by (cases rule: step_cases) (auto simp: foundInTable_def goto_def)
qed

lemma insertedOnce_step:
  assumes "insertedOnce s" and "creatingAbsent s" and "step L reqs t s = Some s'"
  shows "insertedOnce s'"
proof -
  have mine: "\<And>l. creating (pcs s t) = Some l \<Longrightarrow> ProxyMap (proxy s) l = None"
    using assms(2) by (simp add: creatingAbsent_def)
  from assms(3,1) mine show ?thesis
    by (cases rule: step_cases) (auto simp: insertedOnce_def goto_def)
qed

lemma answers_insert:
  assumes "answers p req a" and "ProxyMap p l = None"
  shows "answers (p\<lparr>ProxyMap := (ProxyMap p)(l \<mapsto> info)\<rparr>) req a"
  using assms by (auto simp: answers_def split: option.splits)

lemma resultsAnswer_step:
  assumes "resultsAnswer reqs s" and "sameTables p0 s" and "localsMapped p0 reqs s"
    and "creatingAbsent s" and "foundInTable s" and "step L reqs t s = Some s'"
  shows "resultsAnswer reqs s'"
proof -
  have absent: "\<And>l. creating (pcs s t) = Some l \<Longrightarrow> ProxyMap (proxy s) l = None"
    using assms(4) by (simp add: creatingAbsent_def)
  have found: "\<And>l info. pcs s t = AtRUnlock l (Some info) \<Longrightarrow> ProxyMap (proxy s) l = Some info"
    using assms(5) by (simp add: foundInTable_def)
  have mapped: "\<And>l. localOf (pcs s t) = Some l \<Longrightarrow> RemoteMap (proxy s) (Host (reqs t)) = Some l"
    using assms(2,3) by (simp add: localsMapped_def sameTables_def)
  from assms(6,1) absent found mapped show ?thesis
  proof (cases rule: step_cases)
    case (Insert l c k hp addr)
    have m: "RemoteMap (proxy s) (Host (reqs t)) = Some l"
      using mapped Insert by simp
    have ab: "ProxyMap (proxy s) l = None"
      using absent Insert by simp
    show ?thesis
      unfolding resultsAnswer_def
    proof (intro allI impI)
      fix u a
      assume r: "result (pcs s' u) = Some (Inr a)"
      show "answers (proxy s') (reqs u) a"
      proof (cases "u = t")
        case True
        with r Insert have "a = addr"
          by (simp add: goto_def)
        with True m Insert show ?thesis
          by (simp add: answers_def goto_def)
      next
        case False
        with r Insert have "result (pcs s u) = Some (Inr a)"
          by (simp add: goto_def)
        with assms(1) have "answers (proxy s) (reqs u) a"
          by (simp add: resultsAnswer_def)
        from answers_insert [OF this ab] Insert show ?thesis
          by (simp add: goto_def)
      qed
    qed
  qed (auto simp: resultsAnswer_def goto_def answers_def)
qed


lemma pending_inWrite: "pending c = Some l \<Longrightarrow> inWrite c"
  by (cases c) simp_all

lemma servedOnce_frame:
  assumes "servedOnce s" and "pending (pcs s t) = None" and "pending c = None"
    and "serving (env s0) = serving (env s)" and "ProxyMap (proxy s0) = ProxyMap (proxy s)"
    and "pcs s0 = pcs s"
  shows "servedOnce (goto t c s0)"
proof -
  have "(\<exists>u. pending (((pcs s)(t := c)) u) = Some l) \<longleftrightarrow> (\<exists>u. pending (pcs s u) = Some l)" for l
  proof
    assume "\<exists>u. pending (((pcs s)(t := c)) u) = Some l"
    then obtain u where u: "pending (((pcs s)(t := c)) u) = Some l" ..
    with assms(3) have "u \<noteq> t" by auto
    with u have "pending (pcs s u) = Some l" by simp
    then show "\<exists>u. pending (pcs s u) = Some l" ..
  next
    assume "\<exists>u. pending (pcs s u) = Some l"
    then obtain u where u: "pending (pcs s u) = Some l" ..
    with assms(2) have "u \<noteq> t" by auto
    with u have "pending (((pcs s)(t := c)) u) = Some l" by simp
    then show "\<exists>u. pending (((pcs s)(t := c)) u) = Some l" ..
  qed
  then show ?thesis
    using assms(1,5,6) by (simp add: servedOnce_def goto_def started_eq [OF assms(4)])
qed

lemma servedOnce_step:
  assumes "servedOnce s" and "exclusive s" and "creatingAbsent s" and "startsKey s"
    and "step L reqs t s = Some s'"
  shows "servedOnce s'"
proof -
  have others: "pending (pcs s u) = None" if "inWrite (pcs s t)" and "u \<noteq> t" for u
  proof (cases "pending (pcs s u)")
    case (Some l)
    then have "inWrite (pcs s u)" by (rule pending_inWrite)
    with assms(2) that show ?thesis by (auto simp: exclusive_def)
  qed simp
  have absent: "\<And>l. creating (pcs s t) = Some l \<Longrightarrow> ProxyMap (proxy s) l = None"
    using assms(3) by (simp add: creatingAbsent_def)
  have starts: "\<And>l c k hp. pcs s t = AtStart l c k hp \<Longrightarrow> hp_targetHost hp = l"
    using assms(4) by (simp add: startsKey_def)
  from assms(5) show ?thesis
  proof (cases rule: step_cases)
    case (NewCertErr l err w1)
    from NewCert_serving [OF NewCertErr(2)] NewCertErr(1) show ?thesis
      unfolding NewCertErr(3) by (intro servedOnce_frame [OF assms(1)]) simp_all
  next
    case (NewCertOk l c k w1)
    from NewCert_serving [OF NewCertOk(2)] NewCertOk(1) show ?thesis
      unfolding NewCertOk(3) by (intro servedOnce_frame [OF assms(1)]) simp_all
  next
    case (StartErr l c k hp err hp' w2)
    from StartServer_serving_Inl [OF StartErr(2)] StartErr(1) show ?thesis
      unfolding StartErr(3) by (intro servedOnce_frame [OF assms(1)]) simp_all
  next
    case (StartOk l c k hp addr hp' w2)
    have key: "hp_targetHost hp = l"
      using starts StartOk by simp
    have ab: "ProxyMap (proxy s) l = None"
      using absent StartOk by simp
    have sv: "serving w2 = serving (env s) @ [(addr, l, hp_nextHost hp)]"
      using StartServer_serving_Inr [OF StartOk(2)] key by simp
    have none: "pending (pcs s u) = None" for u
      using others [of u] StartOk by (cases "u = t") simp_all
    have before: "started (env s) l' = (if ProxyMap (proxy s) l' \<noteq> None then 1 else 0)" for l'
      using assms(1) none by (simp add: servedOnce_def)
    have pend: "(\<exists>u. pending (pcs s' u) = Some l') \<longleftrightarrow> l' = l" for l'
    proof
      assume "\<exists>u. pending (pcs s' u) = Some l'"
      then obtain u where u: "pending (pcs s' u) = Some l'" ..
      show "l' = l"
      proof (cases "u = t")
        case True
        with u StartOk(3) show ?thesis by (simp add: goto_def)
      next
        case False
        with u StartOk(3) none [of u] show ?thesis by (simp add: goto_def)
      qed
    next
      assume "l' = l"
      with StartOk(3) have "pending (pcs s' t) = Some l'" by (simp add: goto_def)
      then show "\<exists>u. pending (pcs s' u) = Some l'" ..
    qed
    have tbl: "ProxyMap (proxy s') = ProxyMap (proxy s)"
      using StartOk(3) by (simp add: goto_def)
    have env': "env s' = w2"
      using StartOk(3) by (simp add: goto_def)
    show ?thesis
      unfolding servedOnce_def
    proof
      fix l'
      have st: "started (env s') l' = started (env s) l' + (if l = l' then 1 else 0)"
        using started_append [OF sv] by (simp add: env')
      show "started (env s') l' =
          (if ProxyMap (proxy s') l' \<noteq> None \<or> (\<exists>t. pending (pcs s' t) = Some l') then 1 else 0)"
      proof (cases "l' = l")
        case True
        have "started (env s) l = 0"
          using before [of l] ab by simp
        with st True show ?thesis
          by (simp add: pend tbl)
      next
        case False
        then show ?thesis
          by (simp add: st before pend tbl)
      qed
    qed
  next
    case (Insert l c k hp addr)
    have none: "pending (pcs s u) = None" if "u \<noteq> t" for u
      using others [of u] that Insert by simp
    have before: "started (env s) l' = (if ProxyMap (proxy s) l' \<noteq> None \<or> l' = l then 1 else 0)" for l'
    proof -
      have "(\<exists>u. pending (pcs s u) = Some l') \<longleftrightarrow> l' = l"
      proof
        assume "\<exists>u. pending (pcs s u) = Some l'"
        then obtain u where u: "pending (pcs s u) = Some l'" ..
        with none have "u = t" by (cases "u = t") simp_all
        with u Insert show "l' = l" by simp
      next
        assume "l' = l"
        with Insert have "pending (pcs s t) = Some l'" by simp
        then show "\<exists>u. pending (pcs s u) = Some l'" ..
      qed
      then show ?thesis using assms(1) by (simp add: servedOnce_def)
    qed
    have after: "\<not> (\<exists>u. pending (pcs s' u) = Some l')" for l'
    proof
      assume "\<exists>u. pending (pcs s' u) = Some l'"
      then obtain u where u: "pending (pcs s' u) = Some l'" ..
      show False
      proof (cases "u = t")
        case True
        with u Insert(2) show False by (simp add: goto_def)
      next
        case False
        with u Insert(2) none [OF False] show False by (simp add: goto_def)
      qed
    qed
    have tbl: "ProxyMap (proxy s') l' \<noteq> None \<longleftrightarrow> ProxyMap (proxy s) l' \<noteq> None \<or> l' = l" for l'
      using Insert(2) by (simp add: goto_def)
    have env': "env s' = env s"
      using Insert(2) by (simp add: goto_def)
    show ?thesis
      unfolding servedOnce_def
    proof
      fix l'
      show "started (env s') l' =
          (if ProxyMap (proxy s') l' \<noteq> None \<or> (\<exists>t. pending (pcs s' t) = Some l') then 1 else 0)"
        by (simp only: env' before after tbl) simp
    qed
  next
    case Unmapped
    from Unmapped(1) show ?thesis
      unfolding Unmapped(3) by (intro servedOnce_frame [OF assms(1)]) simp_all
  next
    case (Mapped l)
    from Mapped(1) show ?thesis
      unfolding Mapped(3) by (intro servedOnce_frame [OF assms(1)]) simp_all
  next
    case (RLock l)
    from RLock(1) show ?thesis
      unfolding RLock(3) by (intro servedOnce_frame [OF assms(1)]) simp_all
  next
    case (Read l)
    from Read(1) show ?thesis
      unfolding Read(2) by (intro servedOnce_frame [OF assms(1)]) simp_all
  next
    case (RUnlockHit l info)
    from RUnlockHit(1) show ?thesis
      unfolding RUnlockHit(2) by (intro servedOnce_frame [OF assms(1)]) simp_all
  next
    case (RUnlockMiss l)
    from RUnlockMiss(1) show ?thesis
      unfolding RUnlockMiss(2) by (intro servedOnce_frame [OF assms(1)]) simp_all
  next
    case (Lock l)
    from Lock(1) show ?thesis
      unfolding Lock(4) by (intro servedOnce_frame [OF assms(1)]) simp_all
  next
    case (RecheckHit l info)
    from RecheckHit(1) show ?thesis
      unfolding RecheckHit(3) by (intro servedOnce_frame [OF assms(1)]) simp_all
  next
    case (RecheckMiss l)
    from RecheckMiss(1) show ?thesis
      unfolding RecheckMiss(3) by (intro servedOnce_frame [OF assms(1)]) simp_all
  next
    case (KeyPairErr l c k err)
    from KeyPairErr(1) show ?thesis
      unfolding KeyPairErr(2) by (intro servedOnce_frame [OF assms(1)]) simp_all
  next
    case (KeyPairOk l c k hp)
    from KeyPairOk(1) show ?thesis
      unfolding KeyPairOk(3) by (intro servedOnce_frame [OF assms(1)]) simp_all
  next
    case (Unlock r)
    from Unlock(1) show ?thesis
      unfolding Unlock(2) by (intro servedOnce_frame [OF assms(1)]) simp_all
  qed
qed


lemma inv_init:
  assumes "ProxyMap p = Map.empty" and "serving w = []"
  shows "inv p reqs (init p w)"
  using assms
  by (simp add: inv_def init_def sameTables_def exclusive_def localsMapped_def
      creatingAbsent_def startsKey_def foundInTable_def resultsAnswer_def servedOnce_def
      insertedOnce_def started_def)

lemma inv_step:
  assumes "inv p0 reqs s" and "step L reqs t s = Some s'"
  shows "inv p0 reqs s'"
proof -
  note st = assms(2)
  from assms(1) have a: "sameTables p0 s" and b: "exclusive s" and c: "localsMapped p0 reqs s"
    and d: "creatingAbsent s" and e: "startsKey s" and f: "foundInTable s"
    and g: "resultsAnswer reqs s" and h: "servedOnce s" and k: "insertedOnce s"
    by (simp_all add: inv_def)
  show ?thesis
    unfolding inv_def
    by (intro conjI sameTables_step [OF a st] exclusive_step [OF b st]
        localsMapped_step [OF c a st] creatingAbsent_step [OF d b st] startsKey_step [OF e st]
        foundInTable_step [OF f d st] resultsAnswer_step [OF g a c d f st]
        servedOnce_step [OF h b d e st] insertedOnce_step [OF k d st])
qed

lemma inv_turn: "inv p0 reqs s \<Longrightarrow> inv p0 reqs (turn L reqs t s)"
  by (cases "step L reqs t s") (simp_all add: turn_def inv_step)

lemma inv_run: "inv p0 reqs s \<Longrightarrow> inv p0 reqs (run L reqs sched s)"
  by (induction sched arbitrary: s) (simp_all add: inv_turn)

lemma answers_same:
  assumes "answers p req a" and "answers p req' a'" and "Host req = Host req'"
  shows "a = a'"
  using assms by (auto simp: answers_def split: option.splits)

lemma goto_simps:
  "pcs (goto t c s) = (pcs s)(t := c)"
  "proxy (goto t c s) = proxy s"
  "readers (goto t c s) = readers s"
  "writer (goto t c s) = writer s"
  "env (goto t c s) = env s"
  "inserts (goto t c s) = inserts s"
  by (simp_all add: goto_def)

lemma step_AtLookup:
  "pcs s t = AtLookup \<Longrightarrow> step L reqs t s =
     (case RemoteMap (proxy s) (Host (reqs t)) of
        None \<Rightarrow> Some (goto t (Done (Inr [])) s)
      | Some localHost \<Rightarrow> Some (goto t (AtRLock localHost) s))"
  by (simp add: step_def Let_def goto_simps)

lemma step_AtRLock:
  "pcs s t = AtRLock l \<Longrightarrow> step L reqs t s =
     (if writer s then None else Some (goto t (AtRead l) (s\<lparr>readers := readers s + 1\<rparr>)))"
  by (simp add: step_def Let_def goto_simps)

lemma step_AtRead:
  "pcs s t = AtRead l \<Longrightarrow> step L reqs t s =
     Some (goto t (AtRUnlock l (ProxyMap (proxy s) l)) s)"
  by (simp add: step_def Let_def goto_simps)

lemma step_AtRUnlock:
  "pcs s t = AtRUnlock l found \<Longrightarrow> step L reqs t s =
     Some (goto t (case found of Some proxyInfo \<Rightarrow> Done (Inr (proxyHost proxyInfo))
                   | None \<Rightarrow> AtLock l) (s\<lparr>readers := readers s - 1\<rparr>))"
  by (simp add: step_def Let_def goto_simps)

lemma step_AtLock:
  "pcs s t = AtLock l \<Longrightarrow> step L reqs t s =
     (if writer s \<or> 0 < readers s then None
      else Some (goto t (AtRecheck l) (s\<lparr>writer := True\<rparr>)))"
  by (simp add: step_def Let_def goto_simps)

lemma step_AtRecheck:
  "pcs s t = AtRecheck l \<Longrightarrow> step L reqs t s =
     (case ProxyMap (proxy s) l of
        Some proxyInfo \<Rightarrow> Some (goto t (AtUnlock (Inr (proxyHost proxyInfo))) s)
      | None \<Rightarrow> Some (goto t (AtNewCert l) s))"
  by (simp add: step_def Let_def goto_simps)

lemma step_AtNewCert:
  "pcs s t = AtNewCert l \<Longrightarrow> step L reqs t s =
     (case NewCert L (FakeCA (proxy s)) [url_Hostname L (URL (reqs t))] (env s) of
        (Inl err, w1) \<Rightarrow> Some (goto t (AtUnlock (Inl err)) (s\<lparr>env := w1\<rparr>))
      | (Inr (c, k), w1) \<Rightarrow> Some (goto t (AtKeyPair l c k) (s\<lparr>env := w1\<rparr>)))"
  by (simp add: step_def Let_def goto_simps)

lemma step_AtKeyPair:
  "pcs s t = AtKeyPair l c k \<Longrightarrow> step L reqs t s =
     (case tls_X509KeyPair L c k of
        Inl err \<Rightarrow> Some (goto t (AtUnlock (Inl err)) s)
      | Inr serverCert \<Rightarrow>
          (case httpsproxy_New serverCert l (Host (reqs t)) (prefixesOf (proxy s) (Host (reqs t))) of
             Inl err \<Rightarrow> Some (goto t (AtUnlock (Inl err)) s)
           | Inr hp \<Rightarrow> Some (goto t (AtStart l c k hp) s)))"
  by (simp add: step_def Let_def goto_simps)

lemma step_AtStart:
  "pcs s t = AtStart l c k hp \<Longrightarrow> step L reqs t s =
     (case StartServer L hp (env s) of
        (Inl err, hp', w2) \<Rightarrow> Some (goto t (AtUnlock (Inl err)) (s\<lparr>env := w2\<rparr>))
      | (Inr addr, hp', w2) \<Rightarrow> Some (goto t (AtInsert l c k hp' addr) (s\<lparr>env := w2\<rparr>)))"
  by (simp add: step_def Let_def goto_simps)

lemma step_AtInsert:
  "pcs s t = AtInsert l c k hp addr \<Longrightarrow> step L reqs t s =
     Some (goto t (AtUnlock (Inr addr))
        (s\<lparr>proxy := (proxy s)\<lparr>ProxyMap := (ProxyMap (proxy s))(l \<mapsto>
                        \<lparr>proxyHost = addr, certPEM = c, privKeyPEM = k, httpsProxy = hp\<rparr>)\<rparr>,
           inserts := inserts s @ [l]\<rparr>))"
  by (simp add: step_def Let_def goto_simps)

lemma step_AtUnlock:
  "pcs s t = AtUnlock r \<Longrightarrow> step L reqs t s = Some (goto t (Done r) (s\<lparr>writer := False\<rparr>))"
  by (simp add: step_def Let_def goto_simps)

lemma step_Done:
  "pcs s t = Done r \<Longrightarrow> step L reqs t s = None"
  by (simp add: step_def Let_def goto_simps)


lemma turn_Some: "step L reqs t s = Some s' \<Longrightarrow> turn L reqs t s = s'"
  by (simp add: turn_def)

lemma turn_None: "step L reqs t s = None \<Longrightarrow> turn L reqs t s = s"
  by (simp add: turn_def)

section \<open>Progress\<close>

lemma run_append: "run L reqs (a @ b) s = run L reqs b (run L reqs a s)"
  by (induction a arbitrary: s) simp_all

lemma upd_Collect:
  "{u. P (((f)(t := c)) u)} = (if P c then insert t {u. P (f u)} else {u. P (f u)} - {t})"
  by auto

lemma readersCounted_goto:
  assumes "readersCounted s" and "pcs s0 = pcs s"
    and "readers s0 = (if inRead c then (if inRead (pcs s t) then readers s else readers s + 1)
                       else if inRead (pcs s t) then readers s - 1 else readers s)"
  shows "readersCounted (goto t c s0)"
proof -
  let ?R = "{u. inRead (pcs s u)}"
  have fin: "finite ?R" and cnt: "readers s = card ?R"
    using assms(1) by (simp_all add: readersCounted_def)
  have mem: "t \<in> ?R \<longleftrightarrow> inRead (pcs s t)"
    by simp
  have set': "{u. inRead (pcs (goto t c s0) u)} = (if inRead c then insert t ?R else ?R - {t})"
    by (simp only: goto_simps assms(2) upd_Collect)
  show ?thesis
  proof (cases "inRead c")
    case True
    then show ?thesis
      unfolding readersCounted_def set'
      using fin cnt mem assms(3) by (simp add: goto_simps card_insert_if)
  next
    case False
    then show ?thesis
      unfolding readersCounted_def set'
      using fin cnt mem assms(3) by (simp add: goto_simps card_Diff_singleton_if)
  qed
qed

lemma readersCounted_step:
  assumes "readersCounted s" and "step L reqs t s = Some s'"
  shows "readersCounted s'"
  using assms(2)
  by (cases rule: step_cases) (auto intro!: readersCounted_goto [OF assms(1)])

lemma writerHeld_goto:
  assumes "writerHeld s" and "pcs s0 = pcs s"
    and "writer s0 \<Longrightarrow> inWrite c \<or> (writer s \<and> \<not> inWrite (pcs s t))"
  shows "writerHeld (goto t c s0)"
  unfolding writerHeld_def
proof
  assume "writer (goto t c s0)"
  then have "writer s0" by (simp add: goto_simps)
  from assms(3) [OF this] show "\<exists>u. inWrite (pcs (goto t c s0) u)"
  proof
    assume "inWrite c"
    then have "inWrite (pcs (goto t c s0) t)" by (simp add: goto_simps)
    then show ?thesis ..
  next
    assume a: "writer s \<and> \<not> inWrite (pcs s t)"
    with assms(1) obtain u where u: "inWrite (pcs s u)" by (auto simp: writerHeld_def)
    with a have "u \<noteq> t" by auto
    with u have "inWrite (pcs (goto t c s0) u)" by (simp add: goto_simps assms(2))
    then show ?thesis ..
  qed
qed

lemma writerHeld_step:
  assumes "writerHeld s" and "step L reqs t s = Some s'"
  shows "writerHeld s'"
  using assms(2)
  by (cases rule: step_cases) (auto intro!: writerHeld_goto [OF assms(1)])


lemma step_others:
  assumes "step L reqs t s = Some s'" and "v \<noteq> t"
  shows "pcs s' v = pcs s v"
  using assms by (cases rule: step_cases) (simp_all add: goto_simps)

lemma busy_advances:
  assumes "t \<in> busy s"
  shows "\<exists>s'. step L reqs t s = Some s' \<and> rank (pcs s' t) < rank (pcs s t)"
proof (cases "pcs s t")
  case (AtRead l)
  then show ?thesis by (simp add: step_AtRead goto_simps)
next
  case (AtRUnlock l found)
  then show ?thesis by (cases found) (simp_all add: step_AtRUnlock goto_simps)
next
  case (AtRecheck l)
  then show ?thesis
    by (cases "ProxyMap (proxy s) l") (simp_all add: step_AtRecheck goto_simps)
next
  case (AtNewCert l)
  then show ?thesis
    by (auto simp: step_AtNewCert goto_simps split: prod.splits sum.splits)
next
  case (AtKeyPair l c k)
  then show ?thesis
    by (auto simp: step_AtKeyPair goto_simps split: sum.splits)
next
  case (AtStart l c k hp)
  then show ?thesis
    by (auto simp: step_AtStart goto_simps split: prod.splits sum.splits)
next
  case (AtInsert l c k hp a)
  then show ?thesis by (simp add: step_AtInsert goto_simps)
next
  case (AtUnlock r)
  then show ?thesis by (simp add: step_AtUnlock goto_simps)
qed (use assms in \<open>simp_all add: busy_def\<close>)

lemma release:
  assumes "t \<in> busy s"
  shows "\<exists>n. t \<notin> busy (run L reqs (replicate n t) s)
           \<and> (\<forall>v. v \<noteq> t \<longrightarrow> pcs (run L reqs (replicate n t) s) v = pcs s v)"
  using assms
proof (induction "rank (pcs s t)" arbitrary: s rule: less_induct)
  case less
  from busy_advances [OF less.prems] obtain s1 where
    st: "step L reqs t s = Some s1" and lt: "rank (pcs s1 t) < rank (pcs s t)"
    by blast
  have tn: "turn L reqs t s = s1"
    using st by (rule turn_Some)
  have same: "\<And>v. v \<noteq> t \<Longrightarrow> pcs s1 v = pcs s v"
    using st by (rule step_others)
  show ?case
  proof (cases "t \<in> busy s1")
    case False
    have "t \<notin> busy (run L reqs (replicate 1 t) s)
        \<and> (\<forall>v. v \<noteq> t \<longrightarrow> pcs (run L reqs (replicate 1 t) s) v = pcs s v)"
      using False same by (simp add: tn)
    then show ?thesis ..
  next
    case True
    from less.hyps [OF lt True] obtain n where
      n: "t \<notin> busy (run L reqs (replicate n t) s1)"
        "\<And>v. v \<noteq> t \<Longrightarrow> pcs (run L reqs (replicate n t) s1) v = pcs s1 v"
      by blast
    have "t \<notin> busy (run L reqs (replicate (Suc n) t) s)
        \<and> (\<forall>v. v \<noteq> t \<longrightarrow> pcs (run L reqs (replicate (Suc n) t) s) v = pcs s v)"
      using n same by (simp add: tn)
    then show ?thesis ..
  qed
qed

lemma quiesce:
  assumes "finite (busy s)"
  shows "\<exists>ext. busy (run L reqs ext s) = {}"
  using assms
proof (induction "card (busy s)" arbitrary: s rule: less_induct)
  case less
  show ?case
  proof (cases "busy s = {}")
    case True
    then have "busy (run L reqs [] s) = {}" by simp
    then show ?thesis ..
  next
    case False
    then obtain t where t: "t \<in> busy s" by blast
    from release [OF t] obtain n where
      out: "t \<notin> busy (run L reqs (replicate n t) s)" and
      same: "\<And>v. v \<noteq> t \<Longrightarrow> pcs (run L reqs (replicate n t) s) v = pcs s v"
      by blast
    let ?s1 = "run L reqs (replicate n t) s"
    have b1: "busy ?s1 = busy s - {t}"
    proof (rule set_eqI)
      fix v
      show "v \<in> busy ?s1 \<longleftrightarrow> v \<in> busy s - {t}"
      proof (cases "v = t")
        case True
        with out show ?thesis by simp
      next
        case False
        with same [OF False] show ?thesis by (simp add: busy_def)
      qed
    qed
    have fin1: "finite (busy ?s1)"
      using less.prems by (simp add: b1)
    have "card (busy s - {t}) < card (busy s)"
      using less.prems t by (rule card_Diff1_less)
    then have "card (busy ?s1) < card (busy s)"
      by (simp only: b1)
    from less.hyps [OF this fin1] obtain ext where "busy (run L reqs ext ?s1) = {}" ..
    then have "busy (run L reqs (replicate n t @ ext) s) = {}"
      by (simp add: run_append)
    then show ?thesis ..
  qed
qed

lemma busy_finite:
  assumes "readersCounted s" and "exclusive s"
  shows "finite (busy s)"
proof -
  have r: "finite {u. inRead (pcs s u)}"
    using assms(1) by (simp add: readersCounted_def)
  have w: "finite {u. inWrite (pcs s u)}"
  proof (cases "\<exists>u. inWrite (pcs s u)")
    case True
    then obtain u where "inWrite (pcs s u)" ..
    with assms(2) have "{u. inWrite (pcs s u)} \<subseteq> {u}"
      by (auto simp: exclusive_def)
    then show ?thesis by (rule finite_subset) simp
  next
    case False
    then show ?thesis by simp
  qed
  have "busy s = {u. inRead (pcs s u)} \<union> {u. inWrite (pcs s u)}"
    by (auto simp: busy_def)
  with r w show ?thesis by simp
qed

lemma quiet_alone:
  assumes "readersCounted s" and "writerHeld s" and "busy s = {}"
  shows "alone s t"
proof -
  have none: "\<not> inRead (pcs s u)" "\<not> inWrite (pcs s u)" for u
    using assms(3) by (auto simp: busy_def)
  then have "{u. inRead (pcs s u)} = {}" by simp
  with assms(1) have "readers s = 0" by (simp add: readersCounted_def)
  moreover have "\<not> writer s" using assms(2) none by (simp add: writerHeld_def)
  ultimately show ?thesis by (simp add: alone_def none)
qed


lemma alone_advances:
  assumes "alone s t" and "\<And>r. pcs s t \<noteq> Done r"
  shows "\<exists>s'. step L reqs t s = Some s' \<and> alone s' t \<and> rank (pcs s' t) < rank (pcs s t)"
proof (cases "pcs s t")
  case AtLookup
  with assms(1) show ?thesis
    by (cases "RemoteMap (proxy s) (Host (reqs t))")
       (simp_all add: step_AtLookup goto_simps alone_def)
next
  case (AtRLock l)
  with assms(1) show ?thesis
    by (simp add: step_AtRLock goto_simps alone_def)
next
  case (AtRead l)
  with assms(1) show ?thesis
    by (simp add: step_AtRead goto_simps alone_def)
next
  case (AtRUnlock l found)
  with assms(1) show ?thesis
    by (cases found) (simp_all add: step_AtRUnlock goto_simps alone_def)
next
  case (AtLock l)
  with assms(1) show ?thesis
    by (simp add: step_AtLock goto_simps alone_def)
next
  case (AtRecheck l)
  with assms(1) show ?thesis
    by (cases "ProxyMap (proxy s) l") (simp_all add: step_AtRecheck goto_simps alone_def)
next
  case (AtNewCert l)
  with assms(1) show ?thesis
    by (auto simp: step_AtNewCert goto_simps alone_def split: prod.splits sum.splits)
next
  case (AtKeyPair l c k)
  with assms(1) show ?thesis
    by (auto simp: step_AtKeyPair goto_simps alone_def split: sum.splits)
next
  case (AtStart l c k hp)
  with assms(1) show ?thesis
    by (auto simp: step_AtStart goto_simps alone_def split: prod.splits sum.splits)
next
  case (AtInsert l c k hp a)
  with assms(1) show ?thesis
    by (simp add: step_AtInsert goto_simps alone_def)
next
  case (AtUnlock r)
  with assms(1) show ?thesis
    by (simp add: step_AtUnlock goto_simps alone_def)
next
  case (Done r)
  with assms(2) [of r] show ?thesis by simp
qed

lemma alone_returns:
  assumes "alone s t"
  shows "\<exists>n r. pcs (run L reqs (replicate n t) s) t = Done r"
  using assms
proof (induction "rank (pcs s t)" arbitrary: s rule: less_induct)
  case less
  show ?case
  proof (cases "\<exists>r. pcs s t = Done r")
    case True
    then obtain r where "pcs (run L reqs (replicate 0 t) s) t = Done r" by auto
    then show ?thesis by blast
  next
    case False
    then have "\<And>r. pcs s t \<noteq> Done r" by simp
    from alone_advances [OF less.prems this] obtain s1 where
      st: "step L reqs t s = Some s1" and al: "alone s1 t"
      and lt: "rank (pcs s1 t) < rank (pcs s t)"
      by blast
    from less.hyps [OF lt al] obtain n r where
      "pcs (run L reqs (replicate n t) s1) t = Done r" by blast
    then have "pcs (run L reqs (replicate (Suc n) t) s) t = Done r"
      by (simp add: turn_Some [OF st])
    then show ?thesis by blast
  qed
qed

lemma exclusive_run: "exclusive s \<Longrightarrow> exclusive (run L reqs sched s)"
proof (induction sched arbitrary: s)
  case (Cons t sched)
  have "exclusive (turn L reqs t s)"
    using Cons.prems by (cases "step L reqs t s") (simp_all add: turn_def exclusive_step)
  then show ?case by (simp add: Cons.IH)
qed simp

lemma readersCounted_run: "readersCounted s \<Longrightarrow> readersCounted (run L reqs sched s)"
proof (induction sched arbitrary: s)
  case (Cons t sched)
  have "readersCounted (turn L reqs t s)"
    using Cons.prems by (cases "step L reqs t s") (simp_all add: turn_def readersCounted_step)
  then show ?case by (simp add: Cons.IH)
qed simp

lemma writerHeld_run: "writerHeld s \<Longrightarrow> writerHeld (run L reqs sched s)"
proof (induction sched arbitrary: s)
  case (Cons t sched)
  have "writerHeld (turn L reqs t s)"
    using Cons.prems by (cases "step L reqs t s") (simp_all add: turn_def writerHeld_step)
  then show ?case by (simp add: Cons.IH)
qed simp

lemma can_return:
  assumes "exclusive s" and "readersCounted s" and "writerHeld s"
  shows "\<exists>ext r. pcs (run L reqs ext s) t = Done r"
proof -
  from quiesce [OF busy_finite [OF assms(2,1)]] obtain ext1 where
    q: "busy (run L reqs ext1 s) = {}" ..
  let ?s1 = "run L reqs ext1 s"
  have "alone ?s1 t"
    using readersCounted_run [OF assms(2)] writerHeld_run [OF assms(3)] q
    by (rule quiet_alone)
  from alone_returns [OF this] obtain n r where
    "pcs (run L reqs (replicate n t) ?s1) t = Done r" by blast
  then have "pcs (run L reqs (ext1 @ replicate n t) s) t = Done r"
    by (simp add: run_append)
  then show ?thesis by blast
qed

lemma init_lock_free:
  "exclusive (init p w)" "readersCounted (init p w)" "writerHeld (init p w)"
  by (simp_all add: exclusive_def readersCounted_def writerHeld_def init_def)


text \<open>
  A goroutine that runs alone, with the lock free, does in eleven statements what
  \<open>maybeStartHTTPSProxy\<close> as a function computes: the same result, the same table and
  the same effects on the world, and it leaves the lock free.
\<close>

lemma solo_is_sequential:
  assumes "pcs s t = AtLookup" and "\<not> writer s" and "readers s = 0"
  shows "(case maybeStartHTTPSProxy L (proxy s) (reqs t) (env s) of
            (r, p', w') \<Rightarrow>
              pcs (run L reqs [t, t, t, t, t, t, t, t, t, t, t] s) t = Done r
            \<and> proxy (run L reqs [t, t, t, t, t, t, t, t, t, t, t] s) = p'
            \<and> env (run L reqs [t, t, t, t, t, t, t, t, t, t, t] s) = w'
            \<and> \<not> writer (run L reqs [t, t, t, t, t, t, t, t, t, t, t] s)
            \<and> readers (run L reqs [t, t, t, t, t, t, t, t, t, t, t] s) = 0)"
proof -
  note ev = turn_def step_def Let_def goto_simps
  show ?thesis
  proof (cases "RemoteMap (proxy s) (Host (reqs t))")
    case None
    with assms show ?thesis
      by (simp add: maybeStartHTTPSProxy_def ev)
  next
    case (Some l)
    show ?thesis
    proof (cases "ProxyMap (proxy s) l")
      case found: (Some info)
      with assms Some show ?thesis
        by (simp add: maybeStartHTTPSProxy_def ev)
    next
      case None
      note pre = assms Some None
      let ?cert = "NewCert L (FakeCA (proxy s)) [url_Hostname L (URL (reqs t))] (env s)"
      show ?thesis
      proof (cases ?cert)
        case (Pair res w1)
        show ?thesis
        proof (cases res)
          case (Inl err)
          with pre Pair show ?thesis
            by (simp add: maybeStartHTTPSProxy_def createHTTPSProxy_def ev)
        next
          case (Inr pems)
          obtain c k where pems: "pems = (c, k)" by (cases pems)
          note cert = Pair [unfolded Inr pems]
          show ?thesis
          proof (cases "tls_X509KeyPair L c k")
            case (Inl err)
            with pre cert show ?thesis
              by (simp add: maybeStartHTTPSProxy_def createHTTPSProxy_def ev)
          next
            case kp: (Inr serverCert)
            obtain hp where
              new: "httpsproxy_New serverCert l (Host (reqs t)) (prefixesOf (proxy s) (Host (reqs t)))
                      = Inr hp"
              by (simp add: httpsproxy_New_def)
            obtain res2 hp' w2 where start: "StartServer L hp w1 = (res2, hp', w2)"
              by (cases "StartServer L hp w1")
            show ?thesis
            proof (cases res2)
              case (Inl err)
              with pre cert kp new start show ?thesis
                by (simp add: maybeStartHTTPSProxy_def createHTTPSProxy_def ev)
            next
              case (Inr addr)
              with pre cert kp new start show ?thesis
                by (simp add: maybeStartHTTPSProxy_def createHTTPSProxy_def ev)
            qed
          qed
        qed
      qed
    qed
  qed
qed


section \<open>Requests that are answered with an address\<close>

lemma StartServer_succeeds:
  assumes "net_Listen L w = Inr port"
    and "url_Parse L (''http://'' @ hp_targetHost hp) = Inr targetURL"
    and "url_Parse L (''https://'' @ hp_nextHost hp) = Inr nextURL"
  shows "\<exists>addr hp' w'. StartServer L hp w = (Inr addr, hp', w')"
  using assms by (simp add: StartServer_def Let_def)

lemma unfailing_goto:
  assumes "unfailing L p0 reqs s" and "pcs s0 = pcs s"
    and "\<And>e. result c \<noteq> Some (Inl e)"
    and "\<And>l c' k. c = AtKeyPair l c' k \<Longrightarrow>
          \<exists>w w'. NewCert L (FakeCA p0) [url_Hostname L (URL (reqs t))] w = (Inr (c', k), w')"
    and "\<And>l c' k hp. c = AtStart l c' k hp \<Longrightarrow> hp_nextHost hp = Host (reqs t)"
  shows "unfailing L p0 reqs (goto t c s0)"
  using assms unfolding unfailing_def goto_simps by (simp (no_asm_simp))

lemma unfailing_step:
  assumes ok: "creationSucceeds L p0 reqs" and u: "unfailing L p0 reqs s"
    and tabs: "sameTables p0 s" and loc: "localsMapped p0 reqs s" and sk: "startsKey s"
    and st: "step L reqs t s = Some s'"
  shows "unfailing L p0 reqs s'"
proof (cases "\<exists>l c k. pcs s t = AtKeyPair l c k")
  case True
  then obtain l c k where pc: "pcs s t = AtKeyPair l c k" by blast
  from u pc obtain w w' where
    "NewCert L (FakeCA p0) [url_Hostname L (URL (reqs t))] w = (Inr (c, k), w')"
    unfolding unfailing_def by blast
  with ok obtain cert where kp: "tls_X509KeyPair L c k = Inr cert"
    unfolding creationSucceeds_def by blast
  from st pc kp have s': "s' = goto t (AtStart l c k
       \<lparr>hp_cfg = \<lparr>MinVersion = 0x0303, CurvePreferences = [25, 24, 23],
                  PreferServerCipherSuites = True,
                  CipherSuites = [0xc030, 0xc014, 0x009d, 0x0035],
                  Certificates = [cert]\<rparr>,
         hp_target = None, hp_targetHost = l, hp_next = None, hp_nextHost = Host (reqs t),
         hp_prefixes = prefixesOf (proxy s) (Host (reqs t))\<rparr>) s"
    by (simp add: step_AtKeyPair httpsproxy_New_def)
  show ?thesis
    unfolding s' by (rule unfailing_goto [OF u]) simp_all
next
  case False
  have ca: "FakeCA (proxy s) = FakeCA p0"
    using tabs by (simp add: sameTables_def)
  from st show ?thesis
  proof (cases rule: step_cases)
    case (NewCertErr l err w1)
    with ok ca show ?thesis
      unfolding creationSucceeds_def by (metis Pair_inject sum.distinct(1))
  next
    case (NewCertOk l c k w1)
    show ?thesis
      unfolding NewCertOk(3)
      by (rule unfailing_goto [OF u]) (use NewCertOk(2) ca in auto)
  next
    case (KeyPairErr l c k err)
    with False show ?thesis by simp
  next
    case (KeyPairOk l c k hp)
    with False show ?thesis by simp
  next
    case (StartErr l c k hp err hp' w2)
    from sk StartErr(1) have th: "hp_targetHost hp = l"
      unfolding startsKey_def by blast
    from u StartErr(1) have nh: "hp_nextHost hp = Host (reqs t)"
      unfolding unfailing_def by blast
    from loc StartErr(1) have m: "RemoteMap p0 (Host (reqs t)) = Some l"
      unfolding localsMapped_def by simp
    from ok m obtain tu nu port where
      "url_Parse L (''http://'' @ l) = Inr tu"
      "url_Parse L (''https://'' @ Host (reqs t)) = Inr nu"
      "net_Listen L (env s) = Inr port"
      unfolding creationSucceeds_def by blast
    then have "\<exists>addr hp' w'. StartServer L hp (env s) = (Inr addr, hp', w')"
      by (intro StartServer_succeeds [of L "env s" port hp tu nu]) (simp_all add: th nh)
    with StartErr(2) show ?thesis by simp
  next
    case (Unlock r)
    from u Unlock(1) have "\<And>e. r \<noteq> Inl e"
      unfolding unfailing_def by (metis result.simps(1))
    then show ?thesis
      unfolding Unlock(2) by (intro unfailing_goto [OF u]) simp_all
  qed (auto intro!: unfailing_goto [OF u])
qed

lemma tableServed_step:
  assumes ts: "tableServed s" and sk: "startsKey s" and st: "step L reqs t s = Some s'"
  shows "tableServed s'"
proof -
  have frame: "tableServed (goto t c s0)"
    if "ProxyMap (proxy s0) = ProxyMap (proxy s)" and "pcs s0 = pcs s"
      and "set (serving (env s)) \<subseteq> set (serving (env s0))"
      and "\<And>l c' k hp a. c = AtInsert l c' k hp a \<Longrightarrow> \<exists>n. (a, l, n) \<in> set (serving (env s0))"
    for c s0
    using ts that unfolding tableServed_def goto_simps
    by (simp (no_asm_simp)) blast
  from st show ?thesis
  proof (cases rule: step_cases)
    case (NewCertErr l err w1)
    have "serving w1 = serving (env s)" by (rule NewCert_serving [OF NewCertErr(2)])
    then show ?thesis unfolding NewCertErr(3) by (intro frame) simp_all
  next
    case (NewCertOk l c k w1)
    have "serving w1 = serving (env s)" by (rule NewCert_serving [OF NewCertOk(2)])
    then show ?thesis unfolding NewCertOk(3) by (intro frame) simp_all
  next
    case (StartErr l c k hp err hp' w2)
    have "serving w2 = serving (env s)" by (rule StartServer_serving_Inl [OF StartErr(2)])
    then show ?thesis unfolding StartErr(3) by (intro frame) simp_all
  next
    case (StartOk l c k hp addr hp' w2)
    from sk StartOk(1) have th: "hp_targetHost hp = l"
      unfolding startsKey_def by blast
    have "serving w2 = serving (env s) @ [(addr, l, hp_nextHost hp)]"
      using StartServer_serving_Inr [OF StartOk(2)] th by simp
    then show ?thesis unfolding StartOk(3) by (intro frame) auto
  next
    case (Insert l c k hp addr)
    from ts Insert(1) obtain n where n: "(addr, l, n) \<in> set (serving (env s))"
      unfolding tableServed_def by blast
    show ?thesis
      using ts n unfolding Insert(2) tableServed_def goto_simps
      by (simp (no_asm_simp)) blast
  qed (auto intro!: frame)
qed

lemma unfailing_run:
  assumes "creationSucceeds L p0 reqs"
  shows "inv p0 reqs s \<Longrightarrow> unfailing L p0 reqs s \<Longrightarrow> unfailing L p0 reqs (run L reqs sched s)"
proof (induction sched arbitrary: s)
  case (Cons t sched)
  have i: "inv p0 reqs (turn L reqs t s)"
    by (rule inv_turn [OF Cons.prems(1)])
  have "unfailing L p0 reqs (turn L reqs t s)"
  proof (cases "step L reqs t s")
    case None
    with Cons.prems(2) show ?thesis by (simp add: turn_def)
  next
    case (Some s')
    from Cons.prems(1) have "sameTables p0 s" "localsMapped p0 reqs s" "startsKey s"
      by (simp_all add: inv_def)
    from unfailing_step [OF assms Cons.prems(2) this Some] Some show ?thesis
      by (simp add: turn_def)
  qed
  with i show ?case by (simp add: Cons.IH)
qed simp

lemma tableServed_run:
  "inv p0 reqs s \<Longrightarrow> tableServed s \<Longrightarrow> tableServed (run L reqs sched s)"
proof (induction sched arbitrary: s)
  case (Cons t sched)
  have i: "inv p0 reqs (turn L reqs t s)"
    by (rule inv_turn [OF Cons.prems(1)])
  have "tableServed (turn L reqs t s)"
  proof (cases "step L reqs t s")
    case None
    with Cons.prems(2) show ?thesis by (simp add: turn_def)
  next
    case (Some s')
    from Cons.prems(1) have "startsKey s"
      by (simp add: inv_def)
    from tableServed_step [OF Cons.prems(2) this Some] Some show ?thesis
      by (simp add: turn_def)
  qed
  with i show ?case by (simp add: Cons.IH)
qed simp

lemma init_unfailing: "unfailing L p reqs (init p w)"
  by (simp add: unfailing_def init_def)

lemma init_tableServed: "ProxyMap p = Map.empty \<Longrightarrow> tableServed (init p w)"
  by (simp add: tableServed_def init_def)


section \<open>One proxy for a domain\<close>

text \<open>
  C2: start from a dispatcher with an empty \<open>ProxyMap\<close> and no server running, and let
  any number of goroutines run \<open>maybeStartHTTPSProxy\<close> for any requests under any
  schedule. At every moment at most one terminating proxy has been started for a local
  host and its key has been written to the table at most once; once the key is in the
  table, exactly one proxy has been started and the key was written exactly once. A
  goroutine that has returned an address for a mapped host has returned the address of
  the record in the table, which is the address of a server started for the key, so by
  then exactly one proxy was started and one record written; and any two goroutines that
  have returned addresses for the same host have returned the same address. No goroutine
  can be locked out: from every moment on some continuation of the schedule brings any
  given goroutine to its return. When the calls that create a proxy succeed, no
  goroutine returns an error: whoever has returned has returned an address, and every
  goroutine can be brought to return one, by when, for a mapped host, exactly one proxy
  has been started for the key and one record written, with that address.
\<close>

theorem one_proxy_per_key:
  assumes "ProxyMap p = Map.empty" and "serving w = []"
  shows "(let s = run L reqs sched (init p w) in
            started (env s) l \<le> 1
          \<and> count_list (inserts s) l \<le> 1
          \<and> (ProxyMap (proxy s) l \<noteq> None \<longrightarrow>
                started (env s) l = 1 \<and> count_list (inserts s) l = 1)
          \<and> (pcs s t = Done (Inr a) \<and> RemoteMap p (Host (reqs t)) = Some l \<longrightarrow>
                (\<exists>info n. ProxyMap (proxy s) l = Some info \<and> proxyHost info = a
                    \<and> (a, l, n) \<in> set (serving (env s)))
              \<and> started (env s) l = 1 \<and> count_list (inserts s) l = 1)
          \<and> (pcs s t = Done (Inr a) \<and> pcs s t' = Done (Inr a') \<and> Host (reqs t) = Host (reqs t')
                \<longrightarrow> a = a')
          \<and> (\<exists>ext r. pcs (run L reqs ext s) t = Done r)
          \<and> (creationSucceeds L p reqs \<longrightarrow>
                (\<forall>r. pcs s t = Done r \<longrightarrow> (\<exists>b. r = Inr b))
              \<and> (\<exists>ext b. pcs (run L reqs ext s) t = Done (Inr b)
                    \<and> (RemoteMap p (Host (reqs t)) = Some l \<longrightarrow>
                          (\<exists>info n. ProxyMap (proxy (run L reqs ext s)) l = Some info
                              \<and> proxyHost info = b
                              \<and> (b, l, n) \<in> set (serving (env (run L reqs ext s))))
                        \<and> started (env (run L reqs ext s)) l = 1
                        \<and> count_list (inserts (run L reqs ext s)) l = 1))))"
proof -
  define s where "s = run L reqs sched (init p w)"
  have i0: "inv p reqs (init p w)"
    by (rule inv_init [OF assms])
  have i: "inv p reqs (run L reqs sch (init p w))" for sch
    by (rule inv_run [OF i0])
  have ts: "tableServed (run L reqs sch (init p w))" for sch
    by (rule tableServed_run [OF i0 init_tableServed [OF assms(1)]])
  have ext: "run L reqs e s = run L reqs (sched @ e) (init p w)" for e
    by (simp add: s_def run_append)
  have ext0: "s = run L reqs (sched @ []) (init p w)"
    by (simp add: s_def)
  have once: "started (env s1) l \<le> 1 \<and> count_list (inserts s1) l \<le> 1
      \<and> (ProxyMap (proxy s1) l \<noteq> None \<longrightarrow>
            started (env s1) l = 1 \<and> count_list (inserts s1) l = 1)"
    if "inv p reqs s1" for s1
  proof -
    have "started (env s1) l =
        (if ProxyMap (proxy s1) l \<noteq> None \<or> (\<exists>t. pending (pcs s1 t) = Some l) then 1 else 0)"
      using that by (simp add: inv_def servedOnce_def)
    moreover have "count_list (inserts s1) l = (if ProxyMap (proxy s1) l \<noteq> None then 1 else 0)"
      using that by (simp add: inv_def insertedOnce_def)
    ultimately show ?thesis by simp
  qed
  have ans: "answers (proxy s1) (reqs u) b" if "inv p reqs s1" "pcs s1 u = Done (Inr b)" for s1 u b
    using that by (simp add: inv_def resultsAnswer_def)
  have returned: "(\<exists>info n. ProxyMap (proxy s1) l = Some info \<and> proxyHost info = b
                    \<and> (b, l, n) \<in> set (serving (env s1)))
              \<and> started (env s1) l = 1 \<and> count_list (inserts s1) l = 1"
    if i1: "inv p reqs s1" and t1: "tableServed s1" and d: "pcs s1 u = Done (Inr b)"
      and m: "RemoteMap p (Host (reqs u)) = Some l" for s1 u b
  proof -
    have rm: "RemoteMap (proxy s1) = RemoteMap p"
      using i1 by (simp add: inv_def sameTables_def)
    from ans [OF i1 d] m rm obtain info where
      info: "ProxyMap (proxy s1) l = Some info" "proxyHost info = b"
      by (auto simp: answers_def split: option.splits)
    from t1 info obtain n where "(b, l, n) \<in> set (serving (env s1))"
      unfolding tableServed_def by blast
    with info once [OF i1] show ?thesis by auto
  qed
  have c123: "started (env s) l \<le> 1 \<and> count_list (inserts s) l \<le> 1
      \<and> (ProxyMap (proxy s) l \<noteq> None \<longrightarrow>
            started (env s) l = 1 \<and> count_list (inserts s) l = 1)"
    unfolding s_def by (rule once [OF i])
  have c4: "pcs s t = Done (Inr a) \<and> RemoteMap p (Host (reqs t)) = Some l \<longrightarrow>
                (\<exists>info n. ProxyMap (proxy s) l = Some info \<and> proxyHost info = a
                    \<and> (a, l, n) \<in> set (serving (env s)))
              \<and> started (env s) l = 1 \<and> count_list (inserts s) l = 1"
    using returned [of s t a] i [of sched] ts [of sched] unfolding s_def by blast
  have c5: "pcs s t = Done (Inr a) \<and> pcs s t' = Done (Inr a') \<and> Host (reqs t) = Host (reqs t')
                \<longrightarrow> a = a'"
    using ans [of s] i [of sched] answers_same unfolding s_def by blast
  have c6: "\<exists>ext r. pcs (run L reqs ext s) t = Done r"
    unfolding s_def
    by (intro can_return exclusive_run readersCounted_run writerHeld_run init_lock_free)
  have c7: "(\<forall>r. pcs s t = Done r \<longrightarrow> (\<exists>b. r = Inr b))
              \<and> (\<exists>ext b. pcs (run L reqs ext s) t = Done (Inr b)
                    \<and> (RemoteMap p (Host (reqs t)) = Some l \<longrightarrow>
                          (\<exists>info n. ProxyMap (proxy (run L reqs ext s)) l = Some info
                              \<and> proxyHost info = b
                              \<and> (b, l, n) \<in> set (serving (env (run L reqs ext s))))
                        \<and> started (env (run L reqs ext s)) l = 1
                        \<and> count_list (inserts (run L reqs ext s)) l = 1))"
    if ok: "creationSucceeds L p reqs"
  proof -
    have uf: "unfailing L p reqs (run L reqs sch (init p w))" for sch
      by (rule unfailing_run [OF ok i0 init_unfailing])
    have address: "\<exists>b. r = Inr b" if "pcs (run L reqs sch (init p w)) t = Done r" for sch r
    proof (cases r)
      case (Inl e)
      with that uf [of sch] show ?thesis
        unfolding unfailing_def by (metis result.simps(2))
    qed simp
    have first: "\<forall>r. pcs s t = Done r \<longrightarrow> (\<exists>b. r = Inr b)"
      unfolding s_def using address by blast
    from c6 obtain e r where r: "pcs (run L reqs e s) t = Done r" by blast
    with address [of "sched @ e" r] obtain b where b: "pcs (run L reqs e s) t = Done (Inr b)"
      by (auto simp: ext)
    have "RemoteMap p (Host (reqs t)) = Some l \<longrightarrow>
                          (\<exists>info n. ProxyMap (proxy (run L reqs e s)) l = Some info
                              \<and> proxyHost info = b
                              \<and> (b, l, n) \<in> set (serving (env (run L reqs e s))))
                        \<and> started (env (run L reqs e s)) l = 1
                        \<and> count_list (inserts (run L reqs e s)) l = 1"
      using returned [of "run L reqs e s" t b] b i [of "sched @ e"] ts [of "sched @ e"]
      unfolding ext by blast
    with b first show ?thesis by blast
  qed
  show ?thesis
    unfolding Let_def s_def [symmetric] using c123 c4 c5 c6 c7 by blast
qed


lemma testConnect_Hostname: "url_Hostname testLib (URL (testConnect ''a.com:443'')) = ''a.com''"
  by (simp add: testLib_def testConnect_def)

lemma testNewCert:
  "NewCert testLib testCA [''a.com''] world0
     = (Inr ([2, 8], [1, 7]), world0\<lparr>clock := 2, issued := [[''a.com'']]\<rparr>)"
  by (simp add: NewCert_def testLib_simps testEncode_def world0_def Let_def)

lemma testNew:
  "httpsproxy_New \<lparr>Certificate = [2, 8], PrivateKey = [1, 7]\<rparr> ''localhost:7777'' ''a.com:443''
     [''/api''] = Inr testHP0"
  by (simp add: httpsproxy_New_def testHP0_def)

lemma testStart:
  "StartServer testLib testHP0 (world0\<lparr>clock := 2, issued := [[''a.com'']]\<rparr>)
     = (Inr ''localhost:40000'', testHP,
        world0\<lparr>clock := 2, issued := [[''a.com'']], listeners := [40000],
               serving := [(''localhost:40000'', ''localhost:7777'', ''a.com:443'')]\<rparr>)"
proof -
  have d: "decimal 40000 = ''40000''"
    by (simp add: decimal.simps digit_def)
  have "StartServer testLib testHP0 w =
      (Inr (''localhost:'' @ decimal (40000 + length (listeners w))),
       testHP0\<lparr>hp_target := Some (ReverseProxy
                  (makeDirector (NewSingleHostReverseProxy testLib
                     \<lparr>Scheme = ''http'', URLHost = ''localhost:7777'', Path = [], RawQuery = []\<rparr>)
                     ''a.com:443'')),
               hp_next := Some (ReverseProxy
                  (makeDirector (NewSingleHostReverseProxy testLib
                     \<lparr>Scheme = ''https'', URLHost = ''a.com:443'', Path = [], RawQuery = []\<rparr>)
                     ''a.com:443''))\<rparr>,
       w\<lparr>listeners := listeners w @ [40000 + length (listeners w)],
         serving := serving w @ [(''localhost:'' @ decimal (40000 + length (listeners w)),
                                  ''localhost:7777'', ''a.com:443'')]\<rparr>)" for w
    by (simp add: StartServer_def testLib_simps testParse_def HasPrefix_def testHP0_def Let_def)
  from this [of "world0\<lparr>clock := 2, issued := [[''a.com'']]\<rparr>"] show ?thesis
    by (simp add: world0_def d testHP_eq)
qed


lemma race2_run:
  "race2 =
     \<lparr>proxy = testProxy\<lparr>ProxyMap := [''localhost:7777'' \<mapsto>
                 \<lparr>proxyHost = ''localhost:40000'', certPEM = [2, 8], privKeyPEM = [1, 7],
                  httpsProxy = testHP\<rparr>]\<rparr>,
      readers = 0, writer = False,
      env = world0\<lparr>clock := 2, issued := [[''a.com'']], listeners := [40000],
               serving := [(''localhost:40000'', ''localhost:7777'', ''a.com:443'')]\<rparr>,
      pcs = (\<lambda>t. AtLookup)(0 := Done (Inr ''localhost:40000''),
                              2 := Done (Inr ''localhost:40000'')),
      inserts = [''localhost:7777'']\<rparr>"
proof -
  let ?reqs = "\<lambda>t::nat. testConnect ''a.com:443''"
  let ?l = "''localhost:7777''"
  define st where "st a b r w e tb ins =
     \<lparr>proxy = testProxy\<lparr>ProxyMap := tb\<rparr>, readers = r, writer = w, env = e,
      pcs = (\<lambda>t. AtLookup)(0 := a, 2 := b), inserts = ins\<rparr>" for a b r w e tb ins
  have st_sel: "pcs (st a b r w e tb ins) 0 = a" "pcs (st a b r w e tb ins) 2 = b"
    "readers (st a b r w e tb ins) = r" "writer (st a b r w e tb ins) = w"
    "env (st a b r w e tb ins) = e" "inserts (st a b r w e tb ins) = ins"
    "ProxyMap (proxy (st a b r w e tb ins)) = tb"
    "RemoteMap (proxy (st a b r w e tb ins)) = RemoteMap testProxy"
    "FakeCA (proxy (st a b r w e tb ins)) = testCA"
    "prefixesOf (proxy (st a b r w e tb ins)) ''a.com:443'' = [''/api'']"
    for a b r w e tb ins
    by (simp_all add: st_def testProxy_maps prefixesOf_def)
  have st_upd: "goto 0 c (st a b r w e tb ins) = st c b r w e tb ins"
    "goto 2 c (st a b r w e tb ins) = st a c r w e tb ins"
    "(st a b r w e tb ins)\<lparr>readers := r'\<rparr> = st a b r' w e tb ins"
    "(st a b r w e tb ins)\<lparr>writer := w'\<rparr> = st a b r w' e tb ins"
    "(st a b r w e tb ins)\<lparr>env := e'\<rparr> = st a b r w e' tb ins"
    "(st a b r w e tb ins)\<lparr>proxy := (proxy (st a b r w e tb ins))\<lparr>ProxyMap := tb'\<rparr>,
        inserts := ins'\<rparr> = st a b r w e tb' ins'"
    for a b c r r' w w' e e' tb tb' ins ins'
    by (simp_all add: st_def goto_def fun_upd_twist)
  have req: "Host (?reqs t) = ''a.com:443''" for t
    by (simp add: testConnect_def)
  have init: "init testProxy world0 = st AtLookup AtLookup 0 False world0 Map.empty []"
    by (simp add: init_def st_def testProxy_maps fun_eq_iff)
  have look: "turn testLib ?reqs 0 (st AtLookup b r w e tb ins) = st (AtRLock ?l) b r w e tb ins"
    "turn testLib ?reqs 2 (st a AtLookup r w e tb ins) = st a (AtRLock ?l) r w e tb ins"
    for a b r w e tb ins
    by (simp_all add: turn_def step_AtLookup st_sel st_upd req testProxy_maps)
  have rlock: "turn testLib ?reqs 0 (st (AtRLock l) b r False e tb ins) = st (AtRead l) b (r + 1) False e tb ins"
    "turn testLib ?reqs 2 (st a (AtRLock l) r False e tb ins) = st a (AtRead l) (r + 1) False e tb ins"
    for a b l r e tb ins
    by (simp_all add: turn_def step_AtRLock st_sel st_upd)
  have read: "turn testLib ?reqs 0 (st (AtRead l) b r w e tb ins) = st (AtRUnlock l (tb l)) b r w e tb ins"
    "turn testLib ?reqs 2 (st a (AtRead l) r w e tb ins) = st a (AtRUnlock l (tb l)) r w e tb ins"
    for a b l r w e tb ins
    by (simp_all add: turn_def step_AtRead st_sel st_upd)
  have runlock: "turn testLib ?reqs 0 (st (AtRUnlock l None) b r w e tb ins) = st (AtLock l) b (r - 1) w e tb ins"
    "turn testLib ?reqs 2 (st a (AtRUnlock l None) r w e tb ins) = st a (AtLock l) (r - 1) w e tb ins"
    for a b l r w e tb ins
    by (simp_all add: turn_def step_AtRUnlock st_sel st_upd)
  have lock: "turn testLib ?reqs 0 (st (AtLock l) b 0 False e tb ins) = st (AtRecheck l) b 0 True e tb ins"
    "turn testLib ?reqs 2 (st a (AtLock l) 0 False e tb ins) = st a (AtRecheck l) 0 True e tb ins"
    "turn testLib ?reqs 2 (st a (AtLock l) 0 True e tb ins) = st a (AtLock l) 0 True e tb ins"
    for a b l e tb ins
    by (simp_all add: turn_def step_AtLock st_sel st_upd)
  have recheck: "turn testLib ?reqs 0 (st (AtRecheck l) b r w e Map.empty ins) = st (AtNewCert l) b r w e Map.empty ins"
    "turn testLib ?reqs 2 (st a (AtRecheck l) r w e [l \<mapsto> info] ins)
       = st a (AtUnlock (Inr (proxyHost info))) r w e [l \<mapsto> info] ins"
    for a b l r w e ins info
    by (simp_all add: turn_def step_AtRecheck st_sel st_upd)
  have newcert: "turn testLib ?reqs 0 (st (AtNewCert l) b r w world0 tb ins)
       = st (AtKeyPair l [2, 8] [1, 7]) b r w (world0\<lparr>clock := 2, issued := [[''a.com'']]\<rparr>) tb ins"
    for b l r w tb ins
    by (simp add: turn_def step_AtNewCert st_sel st_upd testConnect_Hostname testNewCert)
  have keypair: "turn testLib ?reqs 0 (st (AtKeyPair ?l [2, 8] [1, 7]) b r w e tb ins)
       = st (AtStart ?l [2, 8] [1, 7] testHP0) b r w e tb ins"
    for b r w e tb ins
    by (simp add: turn_def step_AtKeyPair st_sel st_upd req testLib_simps testNew)
  have start: "turn testLib ?reqs 0 (st (AtStart l c k testHP0) b r w
         (world0\<lparr>clock := 2, issued := [[''a.com'']]\<rparr>) tb ins)
       = st (AtInsert l c k testHP ''localhost:40000'') b r w
           (world0\<lparr>clock := 2, issued := [[''a.com'']], listeners := [40000],
              serving := [(''localhost:40000'', ''localhost:7777'', ''a.com:443'')]\<rparr>) tb ins"
    for b l c k r w tb ins
    by (simp add: turn_def step_AtStart st_sel st_upd testStart)
  have insert: "turn testLib ?reqs 0 (st (AtInsert l c k hp addr) b r w e Map.empty [])
       = st (AtUnlock (Inr addr)) b r w e
           [l \<mapsto> \<lparr>proxyHost = addr, certPEM = c, privKeyPEM = k, httpsProxy = hp\<rparr>] [l]"
    for b l c k hp addr r w e
    by (simp add: turn_def step_AtInsert st_sel st_upd)
  have unlock: "turn testLib ?reqs 0 (st (AtUnlock res) b r w e tb ins) = st (Done res) b r False e tb ins"
    "turn testLib ?reqs 2 (st a (AtUnlock res) r w e tb ins) = st a (Done res) r False e tb ins"
    for a b res r w e tb ins
    by (simp_all add: turn_def step_AtUnlock st_sel st_upd)
  show ?thesis
    unfolding race2_def sched2_def init
    by (simp add: look rlock read runlock lock recheck newcert keypair start insert unlock)
       (simp add: st_def)
qed


lemma testLib_creationSucceeds:
  "creationSucceeds testLib testProxy (\<lambda>t. testConnect ''a.com:443'')"
proof -
  have cert: "NewCert testLib ca names w
      = (Inr ([2, 8], [1, 7]), w\<lparr>clock := clock w + 2, issued := issued w @ [names]\<rparr>)"
    for ca names w
    by (simp add: NewCert_def testLib_simps testEncode_def Let_def)
  have kp: "\<exists>cert. tls_X509KeyPair testLib c k = Inr cert" for c k
    by (simp add: testLib_simps)
  have p1: "\<exists>u. url_Parse testLib (''http://'' @ h) = Inr u" for h
    by (simp add: testLib_simps testParse_def HasPrefix_def)
  have p2: "\<exists>u. url_Parse testLib (''https://'' @ h) = Inr u" for h
    by (simp add: testLib_simps testParse_def HasPrefix_def)
  have ls: "\<exists>port. net_Listen testLib w = Inr port" for w
    by (simp add: testLib_simps)
  show ?thesis
    unfolding creationSucceeds_def using kp p1 p2 ls by (simp add: cert)
qed

theorem one_proxy_per_key_witness:
  "ProxyMap testProxy = Map.empty
   \<and> serving world0 = []
   \<and> RemoteMap testProxy (Host (testConnect ''a.com:443'')) = Some ''localhost:7777''
   \<and> pcs race2 0 = Done (Inr ''localhost:40000'')
   \<and> pcs race2 2 = Done (Inr ''localhost:40000'')
   \<and> started (env race2) ''localhost:7777'' = 1
   \<and> count_list (inserts race2) ''localhost:7777'' = 1
   \<and> serving (env race2) = [(''localhost:40000'', ''localhost:7777'', ''a.com:443'')]
   \<and> creationSucceeds testLib testProxy (\<lambda>t. testConnect ''a.com:443'')
   \<and> pcs race2 3 = AtLookup
   \<and> (\<exists>ext b. pcs (run testLib (\<lambda>t. testConnect ''a.com:443'') ext race2) 3 = Done (Inr b)
        \<and> (\<exists>info n. ProxyMap (proxy (run testLib (\<lambda>t. testConnect ''a.com:443'') ext race2))
                        ''localhost:7777'' = Some info
             \<and> proxyHost info = b
             \<and> (b, ''localhost:7777'', n)
                 \<in> set (serving (env (run testLib (\<lambda>t. testConnect ''a.com:443'') ext race2))))
        \<and> started (env (run testLib (\<lambda>t. testConnect ''a.com:443'') ext race2)) ''localhost:7777'' = 1
        \<and> count_list (inserts (run testLib (\<lambda>t. testConnect ''a.com:443'') ext race2))
             ''localhost:7777'' = 1)"
proof -
  have e: "ProxyMap testProxy = Map.empty"
    by (simp add: testProxy_maps)
  have w: "serving world0 = []"
    by (simp add: world0_def)
  have m: "RemoteMap testProxy (Host (testConnect ''a.com:443'')) = Some ''localhost:7777''"
    by (simp add: testProxy_maps testConnect_def)
  have r: "pcs race2 0 = Done (Inr ''localhost:40000'')"
    "pcs race2 2 = Done (Inr ''localhost:40000'')"
    "pcs race2 3 = AtLookup"
    "serving (env race2) = [(''localhost:40000'', ''localhost:7777'', ''a.com:443'')]"
    by (simp_all add: race2_run)
  note ok = testLib_creationSucceeds
  have first: "started (env race2) ''localhost:7777'' = 1
      \<and> count_list (inserts race2) ''localhost:7777'' = 1"
    using one_proxy_per_key [OF e w, of testLib "\<lambda>t. testConnect ''a.com:443''" sched2
        "''localhost:7777''" 0 "''localhost:40000''" 2 "''localhost:40000''"] m r
    by (simp add: race2_def [symmetric] Let_def)
  have third: "\<exists>ext b. pcs (run testLib (\<lambda>t. testConnect ''a.com:443'') ext race2) 3 = Done (Inr b)
        \<and> (\<exists>info n. ProxyMap (proxy (run testLib (\<lambda>t. testConnect ''a.com:443'') ext race2))
                        ''localhost:7777'' = Some info
             \<and> proxyHost info = b
             \<and> (b, ''localhost:7777'', n)
                 \<in> set (serving (env (run testLib (\<lambda>t. testConnect ''a.com:443'') ext race2))))
        \<and> started (env (run testLib (\<lambda>t. testConnect ''a.com:443'') ext race2)) ''localhost:7777'' = 1
        \<and> count_list (inserts (run testLib (\<lambda>t. testConnect ''a.com:443'') ext race2))
             ''localhost:7777'' = 1"
    using one_proxy_per_key [OF e w, of testLib "\<lambda>t. testConnect ''a.com:443''" sched2
        "''localhost:7777''" 3 "[]" 3 "[]"] m ok
    by (simp add: race2_def [symmetric] Let_def)
  show ?thesis
    using e w m r ok first third by simp
qed

end
